theory Spec2Isabelle
  imports Main "HOL-Library.Product_Lexorder"
begin

section \<open>Hospital appointment and triage system: data model\<close>

text \<open>
  Shallow embedding of \<^verbatim>\<open>hospital_system.cpp\<close>. C++ \<^verbatim>\<open>int\<close> values are modelled as
  unbounded \<^typ>\<open>int\<close>: signed overflow is undefined behaviour in C++ and no property below
  depends on counters that large. The three out-of-line behaviours of the program are
  values of the model: a \<^verbatim>\<open>bool\<close> result, the \<^verbatim>\<open>-1\<close> token id, and \<open>None\<close> for a call
  that does not return normally (the exception of \<^verbatim>\<open>vector<Token>(cap)\<close> for a negative \<^verbatim>\<open>cap\<close>,
  or a loop that does not end).
\<close>

datatype TokenType = ROUTINE | EMERGENCY

record Patient =
  p_id :: int
  p_name :: string
  age :: int
  history :: string
  freq :: int

definition Patient_default :: Patient where
  "Patient_default = \<lparr>p_id = 0, p_name = [], age = 0, history = [], freq = 0\<rparr>"

record Token =
  tokenId :: int
  patientId :: int
  doctorId :: int
  slotId :: int
  tktype :: TokenType

definition Token_default :: Token where
  "Token_default = \<lparr>tokenId = - 1, patientId = - 1, doctorId = - 1, slotId = - 1, tktype = ROUTINE\<rparr>"

text \<open>A node of the singly linked slot list; the \<^verbatim>\<open>next\<close> pointer is the list structure.\<close>

record SlotNode =
  sl_slotId :: int
  startTime :: string
  endTime :: string
  taken :: bool
  sl_tokenId :: int

definition SlotNode_new :: "int \<Rightarrow> string \<Rightarrow> string \<Rightarrow> SlotNode" where
  "SlotNode_new sid s e = \<lparr>sl_slotId = sid, startTime = s, endTime = e, taken = False, sl_tokenId = - 1\<rparr>"

record Doctor =
  d_id :: int
  d_name :: string
  specialization :: string
  slotHead :: "SlotNode list"
  circBuffer :: "Token list"
  frontIdx :: int
  rearIdx :: int
  capacity :: int
  sizeQ :: int

record TriagedToken =
  severity :: int
  tt_token :: Token

datatype ActionType = BOOK | CANCEL | SERVE | REGISTER_PATIENT | TRIAGE_INSERT

record Action =
  atype :: ActionType
  token :: Token
  a_slotId :: int
  a_doctorId :: int
  patientSnapshot :: Patient
  slotPreviouslyTaken :: bool
  a_severity :: int
  patientIdForUpsert :: int
  patientExistedBefore :: bool

text \<open>\<^verbatim>\<open>Action act; act.type = ty;\<close>: the member initialisers of \<^verbatim>\<open>struct Action\<close>.\<close>

definition Action_new :: "ActionType \<Rightarrow> Action" where
  "Action_new ty = \<lparr>atype = ty, token = Token_default, a_slotId = - 1, a_doctorId = - 1,
     patientSnapshot = Patient_default, slotPreviouslyTaken = False, a_severity = 0,
     patientIdForUpsert = - 1, patientExistedBefore = False\<rparr>"

text \<open>
  The triage heap is a \<^verbatim>\<open>std::priority_queue\<close> with comparator \<^verbatim>\<open>greater<TriagedToken>\<close>.
  The standard library is not part of the program; it is modelled by its contract:
  the collection is kept as the list of its entries in the order in which successive
  \<^verbatim>\<open>top()/pop()\<close> calls deliver them, so \<^verbatim>\<open>top\<close> is the head, \<^verbatim>\<open>pop\<close> the tail, and
  \<^verbatim>\<open>push\<close> moves the new entry past every entry that it is greater than. The order
  among entries that compare equal (same severity and same token id) is not fixed by
  the library; no reachable state holds two such entries (\<open>reachable_heap_keys\<close> below).
\<close>

record HospitalSystem =
  doctors :: "int \<rightharpoonup> Doctor"
  patients :: "int \<rightharpoonup> Patient"
  triageHeap :: "TriagedToken list"
  undoStack :: "Action list"
  nextTokenId :: int
  servedCount :: int
  pendingCountTotal :: int

definition HospitalSystem_init :: HospitalSystem where
  "HospitalSystem_init = \<lparr>doctors = Map.empty, patients = Map.empty, triageHeap = [],
     undoStack = [], nextTokenId = 1, servedCount = 0, pendingCountTotal = 0\<rparr>"

section \<open>Doctor: circular queue and slot list\<close>

text \<open>The C++ remainder operator truncates towards zero.\<close>

definition rem_c :: "int \<Rightarrow> int \<Rightarrow> int" where
  "rem_c a b = sgn a * (\<bar>a\<bar> mod \<bar>b\<bar>)"

definition Doctor_new :: "int \<Rightarrow> string \<Rightarrow> string \<Rightarrow> int \<Rightarrow> Doctor" where
  "Doctor_new i n sp cap = \<lparr>d_id = i, d_name = n, specialization = sp, slotHead = [],
     circBuffer = replicate (nat cap) Token_default, frontIdx = 0, rearIdx = - 1,
     capacity = cap, sizeQ = 0\<rparr>"

definition isFull :: "Doctor \<Rightarrow> bool" where
  "isFull D = (sizeQ D = capacity D)"

definition isEmpty :: "Doctor \<Rightarrow> bool" where
  "isEmpty D = (sizeQ D = 0)"

definition Doctor_enqueueRoutine :: "Token \<Rightarrow> Doctor \<Rightarrow> bool \<times> Doctor" where
  "Doctor_enqueueRoutine t D =
     (if isFull D then (False, D)
      else let r = rem_c (rearIdx D + 1) (capacity D)
           in (True, D\<lparr>circBuffer := (circBuffer D)[nat r := t], rearIdx := r,
                        sizeQ := sizeQ D + 1\<rparr>))"

text \<open>\<open>None\<close> is the result \<^verbatim>\<open>false\<close>: neither the doctor nor \<^verbatim>\<open>out\<close> is written.\<close>

definition dequeueRoutine :: "Doctor \<Rightarrow> (Token \<times> Doctor) option" where
  "dequeueRoutine D =
     (if isEmpty D then None
      else let out = circBuffer D ! nat (frontIdx D);
               D1 = D\<lparr>frontIdx := rem_c (frontIdx D + 1) (capacity D), sizeQ := sizeQ D - 1\<rparr>
           in Some (out, if sizeQ D1 = 0 then D1\<lparr>frontIdx := 0, rearIdx := - 1\<rparr> else D1))"

definition insertSlot :: "int \<Rightarrow> string \<Rightarrow> string \<Rightarrow> Doctor \<Rightarrow> Doctor" where
  "insertSlot sid s e D = D\<lparr>slotHead := slotHead D @ [SlotNode_new sid s e]\<rparr>"

text \<open>\<^verbatim>\<open>Doctor::cancelSlot\<close>: unlink the first node with the slot id.\<close>

fun unlinkSlot :: "int \<Rightarrow> SlotNode list \<Rightarrow> (SlotNode list) option" where
  "unlinkSlot sid [] = None"
| "unlinkSlot sid (x # xs) =
     (if sl_slotId x = sid then Some xs
      else (case unlinkSlot sid xs of None \<Rightarrow> None | Some ys \<Rightarrow> Some (x # ys)))"

definition Doctor_cancelSlot :: "int \<Rightarrow> Doctor \<Rightarrow> bool \<times> Doctor" where
  "Doctor_cancelSlot sid D =
     (case unlinkSlot sid (slotHead D) of None \<Rightarrow> (False, D)
      | Some ys \<Rightarrow> (True, D\<lparr>slotHead := ys\<rparr>))"

text \<open>
  \<^verbatim>\<open>Doctor::findSlot\<close> returns a pointer to the first node with the slot id; the model
  returns the position of that node, and a write through the pointer is a list update
  at that position.
\<close>

fun findSlotIn :: "int \<Rightarrow> SlotNode list \<Rightarrow> nat option" where
  "findSlotIn sid [] = None"
| "findSlotIn sid (x # xs) =
     (if sl_slotId x = sid then Some 0
      else (case findSlotIn sid xs of None \<Rightarrow> None | Some i \<Rightarrow> Some (Suc i)))"

definition findSlot :: "int \<Rightarrow> Doctor \<Rightarrow> nat option" where
  "findSlot sid D = findSlotIn sid (slotHead D)"

text \<open>The scan of \<^verbatim>\<open>serveNext\<close> for the first taken slot.\<close>

fun firstTaken :: "SlotNode list \<Rightarrow> nat option" where
  "firstTaken [] = None"
| "firstTaken (x # xs) =
     (if taken x then Some 0
      else (case firstTaken xs of None \<Rightarrow> None | Some i \<Rightarrow> Some (Suc i)))"

definition setSlot :: "nat \<Rightarrow> bool \<Rightarrow> int \<Rightarrow> Doctor \<Rightarrow> Doctor" where
  "setSlot i tk tid D = D\<lparr>slotHead := (slotHead D)[i := (slotHead D ! i)\<lparr>taken := tk, sl_tokenId := tid\<rparr>]\<rparr>"

section \<open>Emergency triage\<close>

text \<open>\<^verbatim>\<open>TriagedToken::operator>\<close>.\<close>

definition tt_greater :: "TriagedToken \<Rightarrow> TriagedToken \<Rightarrow> bool" where
  "tt_greater a b =
     (if severity a \<noteq> severity b then severity a > severity b
      else tokenId (tt_token a) > tokenId (tt_token b))"

fun heap_push :: "TriagedToken \<Rightarrow> TriagedToken list \<Rightarrow> TriagedToken list" where
  "heap_push x [] = [x]"
| "heap_push x (y # ys) = (if tt_greater x y then y # heap_push x ys else x # y # ys)"

section \<open>HospitalSystem operations\<close>

definition addDoctor :: "int \<Rightarrow> string \<Rightarrow> string \<Rightarrow> int \<Rightarrow> HospitalSystem \<Rightarrow> (bool \<times> HospitalSystem) option" where
  "addDoctor docId n sp queueCap s =
     (if doctors s docId \<noteq> None then Some (False, s)
      else if queueCap < 0 then None
      else Some (True, s\<lparr>doctors := (doctors s)(docId \<mapsto> Doctor_new docId n sp queueCap)\<rparr>))"

definition scheduleAddSlot :: "int \<Rightarrow> int \<Rightarrow> string \<Rightarrow> string \<Rightarrow> HospitalSystem \<Rightarrow> bool \<times> HospitalSystem" where
  "scheduleAddSlot did sid st en s =
     (case doctors s did of None \<Rightarrow> (False, s)
      | Some D \<Rightarrow> (True, s\<lparr>doctors := (doctors s)(did \<mapsto> insertSlot sid st en D)\<rparr>))"

definition scheduleCancelSlot :: "int \<Rightarrow> int \<Rightarrow> HospitalSystem \<Rightarrow> bool \<times> HospitalSystem" where
  "scheduleCancelSlot did sid s =
     (case doctors s did of None \<Rightarrow> (False, s)
      | Some D \<Rightarrow>
         (case findSlot sid D of None \<Rightarrow> (False, s)
          | Some i \<Rightarrow>
             let slot = slotHead D ! i;
                 s1 = (if taken slot
                       then s\<lparr>undoStack := (Action_new CANCEL)
                                  \<lparr>token := \<lparr>tokenId = sl_tokenId slot, patientId = - 1,
                                              doctorId = did, slotId = sid, tktype = ROUTINE\<rparr>,
                                   a_slotId := sid, a_doctorId := did,
                                   slotPreviouslyTaken := True\<rparr> # undoStack s,
                              pendingCountTotal := pendingCountTotal s - 1\<rparr>
                       else s);
                 D1 = (if taken slot then setSlot i False (- 1) D else D);
                 (r, D2) = Doctor_cancelSlot sid D1
             in (r, s1\<lparr>doctors := (doctors s1)(did \<mapsto> D2)\<rparr>)))"

definition patientUpsert :: "Patient \<Rightarrow> HospitalSystem \<Rightarrow> HospitalSystem" where
  "patientUpsert p s =
     (let existed = (patients s (p_id p) \<noteq> None);
          act = (Action_new REGISTER_PATIENT)
                  \<lparr>patientExistedBefore := existed, patientIdForUpsert := p_id p,
                   patientSnapshot := (case patients s (p_id p) of Some q \<Rightarrow> q
                                       | None \<Rightarrow> Patient_default)\<rparr>
      in s\<lparr>undoStack := act # undoStack s, patients := (patients s)(p_id p \<mapsto> p)\<rparr>)"

definition patientGet :: "int \<Rightarrow> HospitalSystem \<Rightarrow> Patient option" where
  "patientGet pid s = patients s pid"

text \<open>
  \<^verbatim>\<open>++patients[k].freq\<close>: \<^verbatim>\<open>operator[]\<close> of \<^verbatim>\<open>unordered_map\<close> first inserts a
  value-initialised patient when the key is absent.
\<close>

definition bumpFreq :: "int \<Rightarrow> (int \<rightharpoonup> Patient) \<Rightarrow> (int \<rightharpoonup> Patient)" where
  "bumpFreq k m =
     (let q = (case m k of Some q \<Rightarrow> q | None \<Rightarrow> Patient_default)
      in m(k \<mapsto> q\<lparr>freq := freq q + 1\<rparr>))"

text \<open>The result is the token id, or \<open>- 1\<close>.\<close>

definition enqueueRoutine :: "int \<Rightarrow> int \<Rightarrow> int \<Rightarrow> HospitalSystem \<Rightarrow> int \<times> HospitalSystem" where
  "enqueueRoutine pid did sid s =
     (case doctors s did of None \<Rightarrow> (- 1, s)
      | Some D \<Rightarrow>
         if patients s pid = None then (- 1, s)
         else let tk = \<lparr>tokenId = nextTokenId s, patientId = pid, doctorId = did, slotId = sid,
                         tktype = ROUTINE\<rparr>;
                  s1 = s\<lparr>nextTokenId := nextTokenId s + 1\<rparr>
              in if sid \<noteq> - 1
                 then (case findSlot sid D of None \<Rightarrow> (- 1, s1)
                       | Some i \<Rightarrow>
                          if taken (slotHead D ! i) then (- 1, s1)
                          else (tokenId tk,
                                s1\<lparr>doctors := (doctors s1)(did \<mapsto> setSlot i True (tokenId tk) D),
                                   undoStack := (Action_new BOOK)
                                       \<lparr>token := tk, a_slotId := sid, a_doctorId := did\<rparr> # undoStack s1,
                                   pendingCountTotal := pendingCountTotal s1 + 1,
                                   patients := bumpFreq pid (patients s1)\<rparr>))
                 else if isFull D then (- 1, s1)
                 else (tokenId tk,
                       s1\<lparr>doctors := (doctors s1)(did \<mapsto> snd (Doctor_enqueueRoutine tk D)),
                          undoStack := (Action_new BOOK)\<lparr>token := tk, a_doctorId := did\<rparr> # undoStack s1,
                          pendingCountTotal := pendingCountTotal s1 + 1,
                          patients := bumpFreq pid (patients s1)\<rparr>))"

text \<open>The result is \<open>Some served\<close> for \<^verbatim>\<open>true\<close> with \<^verbatim>\<open>servedOut = served\<close>, \<open>None\<close> for \<^verbatim>\<open>false\<close>.\<close>

definition serveNext :: "int \<Rightarrow> HospitalSystem \<Rightarrow> Token option \<times> HospitalSystem" where
  "serveNext did s =
     (case triageHeap s of
        tt # rest \<Rightarrow>
          let served = (tt_token tt)\<lparr>tktype := EMERGENCY\<rparr>;
              s1 = s\<lparr>triageHeap := rest, servedCount := servedCount s + 1,
                     pendingCountTotal := pendingCountTotal s - 1,
                     undoStack := (Action_new SERVE)\<lparr>token := served, a_severity := severity tt\<rparr>
                                  # undoStack s\<rparr>
          in (Some served,
              if patientId served \<noteq> - 1
              then s1\<lparr>patients := bumpFreq (patientId served) (patients s1)\<rparr> else s1)
      | [] \<Rightarrow>
         (case doctors s did of None \<Rightarrow> (None, s)
          | Some D \<Rightarrow>
             (case dequeueRoutine D of
                None \<Rightarrow>
                  (case firstTaken (slotHead D) of None \<Rightarrow> (None, s)
                   | Some i \<Rightarrow>
                      let sl = slotHead D ! i;
                          served = \<lparr>tokenId = sl_tokenId sl, patientId = - 1, doctorId = did,
                                    slotId = sl_slotId sl, tktype = ROUTINE\<rparr>
                      in (Some served,
                          s\<lparr>doctors := (doctors s)(did \<mapsto> setSlot i False (- 1) D),
                            servedCount := servedCount s + 1,
                            pendingCountTotal := pendingCountTotal s - 1,
                            undoStack := (Action_new SERVE)\<lparr>token := served\<rparr> # undoStack s\<rparr>))
              | Some (served, D1) \<Rightarrow>
                  (Some served,
                   s\<lparr>doctors := (doctors s)(did \<mapsto> D1),
                     servedCount := servedCount s + 1,
                     pendingCountTotal := pendingCountTotal s - 1,
                     undoStack := (Action_new SERVE)\<lparr>token := served\<rparr> # undoStack s\<rparr>))))"

definition triageInsert :: "int \<Rightarrow> int \<Rightarrow> HospitalSystem \<Rightarrow> bool \<times> HospitalSystem" where
  "triageInsert pid sev s =
     (if patients s pid = None then (False, s)
      else let tk = \<lparr>tokenId = nextTokenId s, patientId = pid, doctorId = - 1, slotId = - 1,
                      tktype = EMERGENCY\<rparr>
           in (True,
               s\<lparr>nextTokenId := nextTokenId s + 1,
                 triageHeap := heap_push \<lparr>severity = sev, tt_token = tk\<rparr> (triageHeap s),
                 undoStack := (Action_new TRIAGE_INSERT)\<lparr>token := tk, a_severity := sev\<rparr> # undoStack s,
                 pendingCountTotal := pendingCountTotal s + 1,
                 patients := bumpFreq pid (patients s)\<rparr>))"

text \<open>
  The loop \<^verbatim>\<open>while (D.dequeueRoutine(ot)) { ... }\<close> of the undo of a booking: it runs
  as long as the dequeue succeeds, so it is a partial function; \<open>None\<close> is a loop that
  does not end.
\<close>

partial_function (option) drainRoutine ::
  "int \<Rightarrow> Doctor \<Rightarrow> bool \<Rightarrow> int \<Rightarrow> Token list \<Rightarrow> (Doctor \<times> bool \<times> int \<times> Token list) option" where
  "drainRoutine tid D removed pend tmp =
     (case dequeueRoutine D of
        None \<Rightarrow> Some (D, removed, pend, tmp)
      | Some (ot, D1) \<Rightarrow>
          if \<not> removed \<and> tokenId ot = tid then drainRoutine tid D1 True (pend - 1) tmp
          else drainRoutine tid D1 removed pend (tmp @ [ot]))"

declare drainRoutine.simps [code]

text \<open>\<^verbatim>\<open>for (auto &t: tmp) D.enqueueRoutine(t);\<close>\<close>

definition reenqueue :: "Doctor \<Rightarrow> Token list \<Rightarrow> Doctor" where
  "reenqueue D tmp = foldl (\<lambda>D' t. snd (Doctor_enqueueRoutine t D')) D tmp"

text \<open>The loop \<^verbatim>\<open>while (!triageHeap.empty()) { ... }\<close> of the undo of a triage insertion.\<close>

fun drainHeap ::
  "int \<Rightarrow> TriagedToken list \<Rightarrow> bool \<Rightarrow> int \<Rightarrow> TriagedToken list \<Rightarrow> bool \<times> int \<times> TriagedToken list" where
  "drainHeap remId [] removed pend all = (removed, pend, all)"
| "drainHeap remId (t # heap) removed pend all =
     (if \<not> removed \<and> tokenId (tt_token t) = remId then drainHeap remId heap True (pend - 1) all
      else drainHeap remId heap removed pend (all @ [t]))"

text \<open>\<^verbatim>\<open>for (auto &x: all) triageHeap.push(x);\<close> on the emptied heap.\<close>

definition rebuildHeap :: "TriagedToken list \<Rightarrow> TriagedToken list" where
  "rebuildHeap all = foldl (\<lambda>h x. heap_push x h) [] all"

definition undoPop :: "HospitalSystem \<Rightarrow> (bool \<times> HospitalSystem) option" where
  "undoPop s =
     (case undoStack s of [] \<Rightarrow> Some (False, s)
      | act # rest \<Rightarrow>
         let s0 = s\<lparr>undoStack := rest\<rparr>
         in (case atype act of
               BOOK \<Rightarrow>
                 (let tk = token act
                  in case doctors s0 (a_doctorId act) of None \<Rightarrow> Some (False, s0)
                     | Some D \<Rightarrow>
                        if slotId tk \<noteq> - 1
                        then (case findSlot (slotId tk) D of None \<Rightarrow> Some (False, s0)
                              | Some i \<Rightarrow>
                                 if taken (slotHead D ! i) \<and> sl_tokenId (slotHead D ! i) = tokenId tk
                                 then Some (True,
                                        s0\<lparr>doctors := (doctors s0)(a_doctorId act \<mapsto> setSlot i False (- 1) D),
                                           pendingCountTotal := pendingCountTotal s0 - 1\<rparr>)
                                 else Some (False, s0))
                        else (case drainRoutine (tokenId tk) D False (pendingCountTotal s0) [] of
                                None \<Rightarrow> None
                              | Some (D1, removed, pend, tmp) \<Rightarrow>
                                 Some (removed,
                                   s0\<lparr>doctors := (doctors s0)(a_doctorId act \<mapsto> reenqueue D1 tmp),
                                      pendingCountTotal := pend\<rparr>)))
             | CANCEL \<Rightarrow>
                 (case doctors s0 (a_doctorId act) of None \<Rightarrow> Some (False, s0)
                  | Some D \<Rightarrow>
                     (case findSlot (a_slotId act) D of None \<Rightarrow> Some (False, s0)
                      | Some i \<Rightarrow>
                         Some (True,
                           s0\<lparr>doctors := (doctors s0)(a_doctorId act \<mapsto> setSlot i True (tokenId (token act)) D),
                              pendingCountTotal := pendingCountTotal s0 + 1\<rparr>)))
             | SERVE \<Rightarrow>
                 (let tk = token act
                  in if tktype tk = EMERGENCY
                     then Some (True,
                            s0\<lparr>triageHeap := heap_push \<lparr>severity = a_severity act, tt_token = tk\<rparr> (triageHeap s0),
                               pendingCountTotal := pendingCountTotal s0 + 1,
                               servedCount := servedCount s0 - 1\<rparr>)
                     else (case doctors s0 (doctorId tk) of None \<Rightarrow> Some (False, s0)
                           | Some D \<Rightarrow>
                              Some (True,
                                s0\<lparr>doctors := (doctors s0)(doctorId tk \<mapsto> snd (Doctor_enqueueRoutine tk D)),
                                   pendingCountTotal := pendingCountTotal s0 + 1,
                                   servedCount := servedCount s0 - 1\<rparr>)))
             | REGISTER_PATIENT \<Rightarrow>
                 Some (True,
                   if patientExistedBefore act
                   then s0\<lparr>patients := (patients s0)(patientIdForUpsert act \<mapsto> patientSnapshot act)\<rparr>
                   else s0\<lparr>patients := (patients s0)(patientIdForUpsert act := None)\<rparr>)
             | TRIAGE_INSERT \<Rightarrow>
                 (case drainHeap (tokenId (token act)) (triageHeap s0) False (pendingCountTotal s0) [] of
                    (removed, pend, all) \<Rightarrow>
                      Some (removed, s0\<lparr>triageHeap := rebuildHeap all, pendingCountTotal := pend\<rparr>))))"

section \<open>Runs of the system\<close>

text \<open>The calls a client (the menu loop of \<^verbatim>\<open>main\<close>) can make, and what they return.\<close>

datatype Command =
    AddDoctor int string string int
  | AddSlot int int string string
  | CancelSlot int int
  | Upsert Patient
  | Book int int int
  | Serve int
  | Triage int int
  | Undo

datatype Result = RBool bool | RTokenId int | RServed "Token option" | RVoid

fun exec :: "Command \<Rightarrow> HospitalSystem \<Rightarrow> (Result \<times> HospitalSystem) option" where
  "exec (AddDoctor i n sp cap) s = map_option (\<lambda>(b, s'). (RBool b, s')) (addDoctor i n sp cap s)"
| "exec (AddSlot d sid st en) s = (case scheduleAddSlot d sid st en s of (b, s') \<Rightarrow> Some (RBool b, s'))"
| "exec (CancelSlot d sid) s = (case scheduleCancelSlot d sid s of (b, s') \<Rightarrow> Some (RBool b, s'))"
| "exec (Upsert p) s = Some (RVoid, patientUpsert p s)"
| "exec (Book p d sid) s = (case enqueueRoutine p d sid s of (t, s') \<Rightarrow> Some (RTokenId t, s'))"
| "exec (Serve d) s = (case serveNext d s of (t, s') \<Rightarrow> Some (RServed t, s'))"
| "exec (Triage p sev) s = (case triageInsert p sev s of (b, s') \<Rightarrow> Some (RBool b, s'))"
| "exec Undo s = map_option (\<lambda>(b, s'). (RBool b, s')) (undoPop s)"

fun run :: "Command list \<Rightarrow> HospitalSystem \<Rightarrow> HospitalSystem option" where
  "run [] s = Some s"
| "run (c # cs) s = (case exec c s of None \<Rightarrow> None | Some (r, s') \<Rightarrow> run cs s')"

inductive reachable :: "HospitalSystem \<Rightarrow> bool" where
  reachable_init: "reachable HospitalSystem_init"
| reachable_step: "reachable s \<Longrightarrow> exec c s = Some (r, s') \<Longrightarrow> reachable s'"

fun results :: "Command list \<Rightarrow> HospitalSystem \<Rightarrow> Result list option" where
  "results [] s = Some []"
| "results (c # cs) s =
     (case exec c s of None \<Rightarrow> None
      | Some (r, s') \<Rightarrow> (case results cs s' of None \<Rightarrow> None | Some rs \<Rightarrow> Some (r # rs)))"

text \<open>\<^verbatim>\<open>HospitalSystem::seedSampleData\<close>, the calls \<^verbatim>\<open>main\<close> starts with.\<close>

definition seedSampleData :: "Command list" where
  "seedSampleData =
     [AddDoctor 1 ''Dr_Ahuja'' ''General'' 5, AddDoctor 2 ''Dr_Mehta'' ''Cardio'' 5,
      AddSlot 1 101 ''09:00'' ''09:15'', AddSlot 1 102 ''09:15'' ''09:30'',
      AddSlot 2 201 ''10:00'' ''10:15'',
      Upsert \<lparr>p_id = 1, p_name = ''Ananya'', age = 22, history = ''No_history'', freq = 0\<rparr>,
      Upsert \<lparr>p_id = 2, p_name = ''Lakshita'', age = 19, history = ''Allergy_pollen'', freq = 0\<rparr>,
      Upsert \<lparr>p_id = 3, p_name = ''Saieena'', age = 21, history = ''Asthma'', freq = 0\<rparr>]"

section \<open>Abstraction of the circular queue, invariants of the reachable states\<close>

text \<open>The tokens of the routine queue from front to rear.\<close>

definition queueContents :: "Doctor \<Rightarrow> Token list" where
  "queueContents D =
     map (\<lambda>i. circBuffer D ! nat ((frontIdx D + int i) mod capacity D)) [0..<nat (sizeQ D)]"

definition queue_inv :: "Doctor \<Rightarrow> bool" where
  "queue_inv D =
     (0 \<le> sizeQ D \<and> sizeQ D \<le> capacity D \<and> length (circBuffer D) = nat (capacity D) \<and>
      (if sizeQ D = 0 then frontIdx D = 0 \<and> rearIdx D = - 1
       else 0 \<le> frontIdx D \<and> frontIdx D < capacity D \<and>
            rearIdx D = (frontIdx D + sizeQ D - 1) mod capacity D))"

text \<open>Two doctor values that differ in the queue representation only.\<close>

definition same_doctor :: "Doctor \<Rightarrow> Doctor \<Rightarrow> bool" where
  "same_doctor D D' =
     (slotHead D' = slotHead D \<and> capacity D' = capacity D \<and> d_id D' = d_id D \<and>
      d_name D' = d_name D \<and> specialization D' = specialization D)"

text \<open>What a client can observe of a doctor: everything but the layout of the buffer.\<close>

definition doctorView :: "Doctor \<Rightarrow> int \<times> string \<times> string \<times> int \<times> SlotNode list \<times> Token list" where
  "doctorView D = (d_id D, d_name D, specialization D, capacity D, slotHead D, queueContents D)"

definition same_schedules :: "(int \<rightharpoonup> Doctor) \<Rightarrow> (int \<rightharpoonup> Doctor) \<Rightarrow> bool" where
  "same_schedules ds ds' = (\<forall>d. map_option doctorView (ds' d) = map_option doctorView (ds d))"

text \<open>
  \<open>restored s s'\<close>: the counters, the schedules, the triage collection and the ledger of
  \<open>s'\<close> are those of \<open>s\<close>. The registry and the token id generator are not compared.
\<close>

definition restored :: "HospitalSystem \<Rightarrow> HospitalSystem \<Rightarrow> bool" where
  "restored s s' =
     (pendingCountTotal s' = pendingCountTotal s \<and> servedCount s' = servedCount s \<and>
      same_schedules (doctors s) (doctors s') \<and> triageHeap s' = triageHeap s \<and>
      undoStack s' = undoStack s)"

text \<open>The key by which \<^verbatim>\<open>operator>\<close> compares, in lexicographic order.\<close>

definition tt_key :: "TriagedToken \<Rightarrow> int \<times> int" where
  "tt_key a = (severity a, tokenId (tt_token a))"

text \<open>The drain loop of the undo of a booking, on the contents of the queue.\<close>

fun drainTokens ::
  "int \<Rightarrow> Token list \<Rightarrow> bool \<Rightarrow> int \<Rightarrow> Token list \<Rightarrow> bool \<times> int \<times> Token list" where
  "drainTokens tid [] removed pend tmp = (removed, pend, tmp)"
| "drainTokens tid (ot # q) removed pend tmp =
     (if \<not> removed \<and> tokenId ot = tid then drainTokens tid q True (pend - 1) tmp
      else drainTokens tid q removed pend (tmp @ [ot]))"

text \<open>
  The invariant of the reachable states: every token id in use is below the next id to
  be issued, the queue indices are consistent, queued tokens are routine tokens of their
  doctor, a free slot carries the id \<open>- 1\<close>, the triage collection is ordered and holds
  emergency tokens, and no token id is both in the triage collection and in the record of
  a served emergency.
\<close>

definition doctor_ok :: "int \<Rightarrow> int \<Rightarrow> Doctor \<Rightarrow> bool" where
  "doctor_ok n d D =
     (queue_inv D \<and>
      (\<forall>t\<in>set (queueContents D). tokenId t < n \<and> tktype t = ROUTINE \<and> doctorId t = d) \<and>
      (\<forall>x\<in>set (slotHead D). sl_tokenId x < n \<and> (\<not> taken x \<longrightarrow> sl_tokenId x = - 1)))"

definition docs_ok :: "int \<Rightarrow> (int \<rightharpoonup> Doctor) \<Rightarrow> bool" where
  "docs_ok n ds = (\<forall>d D. ds d = Some D \<longrightarrow> doctor_ok n d D)"

definition heap_ok :: "int \<Rightarrow> TriagedToken list \<Rightarrow> bool" where
  "heap_ok n h =
     (sorted (map tt_key h) \<and>
      (\<forall>e\<in>set h. tokenId (tt_token e) < n \<and> tktype (tt_token e) = EMERGENCY))"

definition ledger_ok :: "int \<Rightarrow> Action list \<Rightarrow> bool" where
  "ledger_ok n l = (\<forall>a\<in>set l. tokenId (token a) < n)"

definition servedEmergency :: "Action list \<Rightarrow> Action list" where
  "servedEmergency l = filter (\<lambda>a. atype a = SERVE \<and> tktype (token a) = EMERGENCY) l"

definition ids_distinct :: "TriagedToken list \<Rightarrow> Action list \<Rightarrow> bool" where
  "ids_distinct h l =
     distinct (map (\<lambda>e. tokenId (tt_token e)) h @ map (\<lambda>a. tokenId (token a)) (servedEmergency l))"

definition sys_inv :: "HospitalSystem \<Rightarrow> bool" where
  "sys_inv s =
     (1 \<le> nextTokenId s \<and> docs_ok (nextTokenId s) (doctors s) \<and>
      heap_ok (nextTokenId s) (triageHeap s) \<and> ledger_ok (nextTokenId s) (undoStack s) \<and>
      ids_distinct (triageHeap s) (undoStack s))"

section \<open>Derived quantities the stated properties speak about\<close>

text \<open>The pending tokens a doctor holds: the queue size plus the occupied slots.\<close>

definition doctorPending :: "Doctor \<Rightarrow> int" where
  "doctorPending D = sizeQ D + int (length (filter taken (slotHead D)))"

definition structPending :: "HospitalSystem \<Rightarrow> int" where
  "structPending s =
     (\<Sum>d\<in>dom (doctors s). doctorPending (the (doctors s d))) + int (length (triageHeap s))"

text \<open>
  The ledger as the specification describes it: the kinds of the mutating operations
  (patient upsert, and every successful booking, triage insertion, serve and slot
  cancellation), the latest first, where an undo removes the top record only when it
  reports that the operation has been reversed.
\<close>

fun mutatingKind :: "Command \<Rightarrow> Result \<Rightarrow> ActionType option" where
  "mutatingKind (Upsert p) r = Some REGISTER_PATIENT"
| "mutatingKind (Book p d sid) r = (if r = RTokenId (- 1) then None else Some BOOK)"
| "mutatingKind (Triage p sev) r = (if r = RBool True then Some TRIAGE_INSERT else None)"
| "mutatingKind (Serve d) r = (if r = RServed None then None else Some SERVE)"
| "mutatingKind (CancelSlot d sid) r = (if r = RBool True then Some CANCEL else None)"
| "mutatingKind (AddDoctor i n sp cap) r = None"
| "mutatingKind (AddSlot d sid st en) r = None"
| "mutatingKind Undo r = None"

fun ledger_claimed :: "Command list \<Rightarrow> HospitalSystem \<Rightarrow> ActionType list \<Rightarrow> ActionType list option" where
  "ledger_claimed [] s l = Some l"
| "ledger_claimed (c # cs) s l =
     (case exec c s of None \<Rightarrow> None
      | Some (r, s') \<Rightarrow>
          ledger_claimed cs s'
            (if c = Undo then (if r = RBool True then tl l else l)
             else (case mutatingKind c r of None \<Rightarrow> l | Some k \<Rightarrow> k # l)))"

text \<open>
  The ledger of the recorded operations: a slot cancellation is recorded only when the
  slot was occupied, and every undo call removes the top record.
\<close>

definition slotOccupied :: "int \<Rightarrow> int \<Rightarrow> HospitalSystem \<Rightarrow> bool" where
  "slotOccupied d sid s =
     (case doctors s d of None \<Rightarrow> False
      | Some D \<Rightarrow> (case findSlot sid D of None \<Rightarrow> False | Some i \<Rightarrow> taken (slotHead D ! i)))"

fun recordedKind :: "Command \<Rightarrow> HospitalSystem \<Rightarrow> Result \<Rightarrow> ActionType option" where
  "recordedKind (CancelSlot d sid) s r =
     (if r = RBool True \<and> slotOccupied d sid s then Some CANCEL else None)"
| "recordedKind c s r = mutatingKind c r"

fun ledger_amended :: "Command list \<Rightarrow> HospitalSystem \<Rightarrow> ActionType list \<Rightarrow> ActionType list option" where
  "ledger_amended [] s l = Some l"
| "ledger_amended (c # cs) s l =
     (case exec c s of None \<Rightarrow> None
      | Some (r, s') \<Rightarrow>
          ledger_amended cs s'
            (if c = Undo then tl l
             else (case recordedKind c s r of None \<Rightarrow> l | Some k \<Rightarrow> k # l)))"

text \<open>
  The same ledger with the records themselves. The record of an operation is determined
  by the call, its result and the state the call is made in: its kind; for a booking the
  token returned, with the patient, the provider and the slot of the call; for a triage
  insertion the token with the next id and the severity; for a serve the token served,
  with the severity of the entry when it came from the triage collection; for the
  cancellation of an occupied slot the provider, the slot and the id of the occupying
  token; for an upsert the patient id and the prior value of the registry.
\<close>

definition slotToken :: "int \<Rightarrow> int \<Rightarrow> HospitalSystem \<Rightarrow> int" where
  "slotToken d sid s =
     (case doctors s d of None \<Rightarrow> - 1
      | Some D \<Rightarrow> (case findSlot sid D of None \<Rightarrow> - 1 | Some i \<Rightarrow> sl_tokenId (slotHead D ! i)))"

fun recordedAction :: "Command \<Rightarrow> HospitalSystem \<Rightarrow> Result \<Rightarrow> Action option" where
  "recordedAction (Upsert pt) s r =
     Some ((Action_new REGISTER_PATIENT)
       \<lparr>patientSnapshot := (case patients s (p_id pt) of Some q \<Rightarrow> q | None \<Rightarrow> Patient_default),
        patientIdForUpsert := p_id pt, patientExistedBefore := (patients s (p_id pt) \<noteq> None)\<rparr>)"
| "recordedAction (Book p d sid) s r =
     (case r of
        RTokenId t \<Rightarrow>
          if t = - 1 then None
          else Some ((Action_new BOOK)
                 \<lparr>token := \<lparr>tokenId = t, patientId = p, doctorId = d, slotId = sid, tktype = ROUTINE\<rparr>,
                  a_slotId := sid, a_doctorId := d\<rparr>)
      | _ \<Rightarrow> None)"
| "recordedAction (Triage p sev) s r =
     (if r = RBool True
      then Some ((Action_new TRIAGE_INSERT)
             \<lparr>token := \<lparr>tokenId = nextTokenId s, patientId = p, doctorId = - 1, slotId = - 1,
                         tktype = EMERGENCY\<rparr>,
              a_severity := sev\<rparr>)
      else None)"
| "recordedAction (Serve d) s r =
     (case r of
        RServed (Some t) \<Rightarrow>
          Some ((Action_new SERVE)
            \<lparr>token := t,
             a_severity := (case triageHeap s of [] \<Rightarrow> 0 | tt # rest \<Rightarrow> severity tt)\<rparr>)
      | _ \<Rightarrow> None)"
| "recordedAction (CancelSlot d sid) s r =
     (if r = RBool True \<and> slotOccupied d sid s
      then Some ((Action_new CANCEL)
             \<lparr>token := \<lparr>tokenId = slotToken d sid s, patientId = - 1, doctorId = d, slotId = sid,
                         tktype = ROUTINE\<rparr>,
              a_slotId := sid, a_doctorId := d, slotPreviouslyTaken := True\<rparr>)
      else None)"
| "recordedAction (AddDoctor i n sp cap) s r = None"
| "recordedAction (AddSlot d sid st en) s r = None"
| "recordedAction Undo s r = None"

fun ledger_records :: "Command list \<Rightarrow> HospitalSystem \<Rightarrow> Action list \<Rightarrow> Action list option" where
  "ledger_records [] s l = Some l"
| "ledger_records (c # cs) s l =
     (case exec c s of None \<Rightarrow> None
      | Some (r, s') \<Rightarrow>
          ledger_records cs s'
            (if c = Undo then tl l
             else (case recordedAction c s r of None \<Rightarrow> l | Some a \<Rightarrow> a # l)))"

section \<open>Example runs\<close>

text \<open>
  A provider of capacity 1 with two slots, both booked and both served through the slot
  scan; the second serve has been undone, so the queue is full and the record of the
  first serve is on top of the ledger.
\<close>

definition demo_full :: HospitalSystem where
  "demo_full = the (run [AddDoctor 7 ''Dr_Rao'' ''ENT'' 1, AddSlot 7 701 ''11:00'' ''11:15'',
      AddSlot 7 702 ''11:15'' ''11:30'',
      Upsert \<lparr>p_id = 1, p_name = ''Ananya'', age = 22, history = ''No_history'', freq = 0\<rparr>,
      Book 1 7 701, Book 1 7 702, Serve 7, Serve 7, Undo] HospitalSystem_init)"

text \<open>
  The sample data, two routine bookings, and three triage insertions with the severities
  5, 2, 2 for the patients 1, 2, 3.
\<close>

definition demo_triage :: HospitalSystem where
  "demo_triage = the (run (seedSampleData @ [Book 1 1 (- 1), Book 2 1 101, Triage 1 5, Triage 2 2, Triage 3 2])
       HospitalSystem_init)"

text \<open>
  A client that books one routine token without slot for each patient of a list, and the
  tokens it is to receive. The two example states: a provider of capacity 2 with an empty
  queue, and the same after two bookings.
\<close>

fun bookAll :: "int list \<Rightarrow> int \<Rightarrow> HospitalSystem \<Rightarrow> int list \<times> HospitalSystem" where
  "bookAll [] d s = ([], s)"
| "bookAll (p # ps) d s =
     (case enqueueRoutine p d (- 1) s of
        (t, s1) \<Rightarrow> (case bookAll ps d s1 of (ts, s2) \<Rightarrow> (t # ts, s2)))"

fun bookedTokens :: "int \<Rightarrow> int \<Rightarrow> int list \<Rightarrow> Token list" where
  "bookedTokens n d [] = []"
| "bookedTokens n d (p # ps) =
     \<lparr>tokenId = n, patientId = p, doctorId = d, slotId = - 1, tktype = ROUTINE\<rparr>
     # bookedTokens (n + 1) d ps"

definition demo_cap2 :: HospitalSystem where
  "demo_cap2 = the (run [AddDoctor 5 ''Dr_Sen'' ''Ortho'' 2,
      Upsert \<lparr>p_id = 1, p_name = ''Ananya'', age = 22, history = ''No_history'', freq = 0\<rparr>,
      Upsert \<lparr>p_id = 2, p_name = ''Lakshita'', age = 19, history = ''Allergy_pollen'', freq = 0\<rparr>]
      HospitalSystem_init)"

definition demo_cap2_full :: HospitalSystem where
  "demo_cap2_full = the (run [AddDoctor 5 ''Dr_Sen'' ''Ortho'' 2,
      Upsert \<lparr>p_id = 1, p_name = ''Ananya'', age = 22, history = ''No_history'', freq = 0\<rparr>,
      Upsert \<lparr>p_id = 2, p_name = ''Lakshita'', age = 19, history = ''Allergy_pollen'', freq = 0\<rparr>,
      Book 1 5 (- 1), Book 2 5 (- 1)]
      HospitalSystem_init)"

text \<open>
  The run of \<open>demo_full\<close> with one more undo: the record of the first serve is undone
  while the queue is full.
\<close>

definition demo_lost :: HospitalSystem where
  "demo_lost = the (run [AddDoctor 7 ''Dr_Rao'' ''ENT'' 1, AddSlot 7 701 ''11:00'' ''11:15'',
      AddSlot 7 702 ''11:15'' ''11:30'',
      Upsert \<lparr>p_id = 1, p_name = ''Ananya'', age = 22, history = ''No_history'', freq = 0\<rparr>,
      Book 1 7 701, Book 1 7 702, Serve 7, Serve 7, Undo, Undo] HospitalSystem_init)"

text \<open>The sample data with slot 101 of provider 1 booked by patient 2.\<close>

definition demo_slot :: HospitalSystem where
  "demo_slot = the (run (seedSampleData @ [Book 2 1 101]) HospitalSystem_init)"

text \<open>The sample data, slot 101 booked and cancelled, and the cancellation undone.\<close>

definition demo_cancel :: HospitalSystem where
  "demo_cancel = the (run (seedSampleData @ [Book 1 1 101, CancelSlot 1 101, Undo]) HospitalSystem_init)"

text \<open>The sample data with slot 101 of provider 1 booked by patient 2 and then cancelled.\<close>

definition demo_cancelled :: HospitalSystem where
  "demo_cancelled = the (run (seedSampleData @ [Book 2 1 101, CancelSlot 1 101]) HospitalSystem_init)"

section \<open>The circular queue implements a bounded FIFO\<close>

lemma rem_c_mod: "0 \<le> a \<Longrightarrow> 0 < b \<Longrightarrow> rem_c a b = a mod b"
  by (cases "a = 0") (simp_all add: rem_c_def)

lemma mod_shift_neq:
  fixes f c :: int
  assumes "int i < n" "n < c"
  shows "(f + int i) mod c \<noteq> (f + n) mod c"
proof
  assume "(f + int i) mod c = (f + n) mod c"
  then have "c dvd (f + n) - (f + int i)" by (metis mod_eq_dvd_iff)
  then have "c dvd n - int i" by simp
  moreover have "0 < n - int i" "n - int i < c" using assms by auto
  ultimately show False using zdvd_not_zless by blast
qed

lemma length_queueContents: "length (queueContents D) = nat (sizeQ D)"
  by (simp add: queueContents_def)

lemma queueContents_Nil: "sizeQ D = 0 \<Longrightarrow> queueContents D = []"
  by (simp add: queueContents_def)

lemma queueContents_nonempty: "queue_inv D \<Longrightarrow> sizeQ D \<noteq> 0 \<Longrightarrow> queueContents D \<noteq> []"
  by (auto simp: queueContents_def queue_inv_def)

lemma queue_inv_slotHead [simp]: "queue_inv (D\<lparr>slotHead := x\<rparr>) = queue_inv D"
  by (simp add: queue_inv_def)

lemma queueContents_slotHead [simp]: "queueContents (D\<lparr>slotHead := x\<rparr>) = queueContents D"
  by (simp add: queueContents_def)

lemma same_doctor_refl: "same_doctor D D"
  by (simp add: same_doctor_def)

lemma same_doctor_trans: "same_doctor A B \<Longrightarrow> same_doctor B C \<Longrightarrow> same_doctor A C"
  by (simp add: same_doctor_def)

lemma enqueue_full: "isFull D \<Longrightarrow> Doctor_enqueueRoutine t D = (False, D)"
  by (simp add: Doctor_enqueueRoutine_def)

lemma enqueue_rear:
  assumes "queue_inv D" "sizeQ D < capacity D"
  shows "rem_c (rearIdx D + 1) (capacity D) = (frontIdx D + sizeQ D) mod capacity D"
proof (cases "sizeQ D = 0")
  case True
  with assms show ?thesis by (simp add: queue_inv_def rem_c_def)
next
  case False
  with assms have r: "rearIdx D = (frontIdx D + sizeQ D - 1) mod capacity D" and c: "0 < capacity D"
    by (auto simp: queue_inv_def)
  have "0 \<le> rearIdx D + 1" using r c by (simp add: pos_mod_sign)
  then have "rem_c (rearIdx D + 1) (capacity D) = (rearIdx D + 1) mod capacity D"
    using c by (rule rem_c_mod)
  also have "\<dots> = (frontIdx D + sizeQ D - 1 + 1) mod capacity D"
    unfolding r by (simp add: mod_add_left_eq)
  finally show ?thesis by simp
qed

lemma enqueue_ok:
  assumes "queue_inv D" "sizeQ D < capacity D"
  shows "Doctor_enqueueRoutine t D =
           (True, D\<lparr>circBuffer := (circBuffer D)[nat ((frontIdx D + sizeQ D) mod capacity D) := t],
                    rearIdx := (frontIdx D + sizeQ D) mod capacity D, sizeQ := sizeQ D + 1\<rparr>)"
  using assms enqueue_rear[OF assms]
  by (simp add: Doctor_enqueueRoutine_def isFull_def Let_def)

lemma enqueue_inv:
  assumes "queue_inv D" "sizeQ D < capacity D"
  shows "queue_inv (snd (Doctor_enqueueRoutine t D))"
  using assms by (auto simp: enqueue_ok queue_inv_def split: if_splits)

lemma enqueue_contents:
  assumes "queue_inv D" "sizeQ D < capacity D"
  shows "queueContents (snd (Doctor_enqueueRoutine t D)) = queueContents D @ [t]"
proof -
  let ?c = "capacity D" and ?f = "frontIdx D" and ?n = "sizeQ D"
  have c: "0 < ?c" and n: "0 \<le> ?n" and len: "length (circBuffer D) = nat ?c"
    using assms by (auto simp: queue_inv_def)
  have r: "0 \<le> (?f + ?n) mod ?c" "(?f + ?n) mod ?c < ?c" using c by simp_all
  have old: "(circBuffer D)[nat ((?f + ?n) mod ?c) := t] ! nat ((?f + int i) mod ?c)
             = circBuffer D ! nat ((?f + int i) mod ?c)" if "i < nat ?n" for i
  proof -
    have "int i < ?n" using that by simp
    from mod_shift_neq[OF this assms(2)] have "(?f + int i) mod ?c \<noteq> (?f + ?n) mod ?c" .
    then have "nat ((?f + ?n) mod ?c) \<noteq> nat ((?f + int i) mod ?c)"
      using c by (simp add: eq_nat_nat_iff)
    then show ?thesis by simp
  qed
  have new: "(circBuffer D)[nat ((?f + ?n) mod ?c) := t] ! nat ((?f + int (nat ?n)) mod ?c) = t"
    using n r len by simp
  have nn: "nat (?n + 1) = Suc (nat ?n)" using n by simp
  show ?thesis
    using old new by (simp add: enqueue_ok[OF assms] queueContents_def nn)
qed

lemma enqueue_fields:
  "slotHead (snd (Doctor_enqueueRoutine t D)) = slotHead D"
  "capacity (snd (Doctor_enqueueRoutine t D)) = capacity D"
  "d_id (snd (Doctor_enqueueRoutine t D)) = d_id D"
  "d_name (snd (Doctor_enqueueRoutine t D)) = d_name D"
  "specialization (snd (Doctor_enqueueRoutine t D)) = specialization D"
  by (simp_all add: Doctor_enqueueRoutine_def Let_def)

lemma enqueue_same: "same_doctor D (snd (Doctor_enqueueRoutine t D))"
  by (simp add: same_doctor_def enqueue_fields)

lemma enqueue_size:
  "sizeQ (snd (Doctor_enqueueRoutine t D)) = (if isFull D then sizeQ D else sizeQ D + 1)"
  by (simp add: Doctor_enqueueRoutine_def Let_def)

lemma dequeue_empty: "isEmpty D \<Longrightarrow> dequeueRoutine D = None"
  by (simp add: dequeueRoutine_def)

lemma upt_nat_pos: "0 < n \<Longrightarrow> [0..<nat n] = 0 # map Suc [0..<nat (n - 1)]"
proof -
  assume "0 < n"
  then have "nat n = Suc (nat (n - 1))" by simp
  then show ?thesis by (simp add: upt_conv_Cons map_Suc_upt del: upt_Suc)
qed

lemma dequeue_ok:
  assumes "queue_inv D" "sizeQ D \<noteq> 0"
  obtains D1 where "dequeueRoutine D = Some (hd (queueContents D), D1)" "queue_inv D1"
    "queueContents D1 = tl (queueContents D)" "sizeQ D1 = sizeQ D - 1" "same_doctor D D1"
proof -
  let ?c = "capacity D" and ?f = "frontIdx D" and ?n = "sizeQ D"
  have n: "0 < ?n" and c: "0 < ?c" and f: "0 \<le> ?f" "?f < ?c" and nc: "?n \<le> ?c"
    and rr: "rearIdx D = (?f + ?n - 1) mod ?c"
    using assms by (auto simp: queue_inv_def)
  have len: "length (circBuffer D) = nat ?c" using assms by (simp add: queue_inv_def)
  have fr: "rem_c (?f + 1) ?c = (?f + 1) mod ?c" using f c by (intro rem_c_mod) auto
  have "queueContents D \<noteq> []" using n by (simp add: queueContents_def)
  then have hd: "hd (queueContents D) = circBuffer D ! nat ?f"
    using n f by (simp add: queueContents_def hd_map upt_conv_Cons)
  have tl: "tl (queueContents D) =
            map (\<lambda>i. circBuffer D ! nat ((?f + 1 + int i) mod ?c)) [0..<nat (?n - 1)]"
    by (simp add: queueContents_def upt_nat_pos[OF n] comp_def ac_simps)
  have "\<exists>D1. dequeueRoutine D = Some (hd (queueContents D), D1) \<and> queue_inv D1 \<and>
              queueContents D1 = tl (queueContents D) \<and> sizeQ D1 = sizeQ D - 1 \<and> same_doctor D D1"
  proof (cases "?n - 1 = 0")
    case True
    then show ?thesis
      using assms hd tl
      by (simp add: dequeueRoutine_def isEmpty_def Let_def queue_inv_def queueContents_def
          same_doctor_def)
  next
    case False
    have "((?f + 1) mod ?c + int i) mod ?c = (?f + 1 + int i) mod ?c" for i
      by (simp add: mod_add_left_eq)
    moreover have "(?f + ?n - 1) mod ?c = ((?f + 1) mod ?c + (?n - 1) - 1) mod ?c"
    proof -
      have "((?f + 1) mod ?c + (?n - 1) - 1) mod ?c = ((?f + 1) mod ?c + (?n - 2)) mod ?c"
        by (simp add: algebra_simps)
      also have "\<dots> = (?f + 1 + (?n - 2)) mod ?c" by (simp only: mod_add_left_eq)
      also have "?f + 1 + (?n - 2) = ?f + ?n - 1" by simp
      finally show ?thesis by simp
    qed
    ultimately show ?thesis
      using False n c nc len hd tl rr fr
      by (simp add: dequeueRoutine_def isEmpty_def Let_def queue_inv_def queueContents_def
          same_doctor_def)
  qed
  then show ?thesis using that by blast
qed

lemma reenqueue_Cons: "reenqueue D (t # ts) = reenqueue (snd (Doctor_enqueueRoutine t D)) ts"
  by (simp add: reenqueue_def)

lemma reenqueue_spec:
  assumes "queue_inv D" "sizeQ D + int (length ts) \<le> capacity D"
  shows "queue_inv (reenqueue D ts) \<and> queueContents (reenqueue D ts) = queueContents D @ ts \<and>
         sizeQ (reenqueue D ts) = sizeQ D + int (length ts) \<and> same_doctor D (reenqueue D ts)"
  using assms
proof (induction ts arbitrary: D)
  case Nil
  then show ?case by (simp add: reenqueue_def same_doctor_refl)
next
  case (Cons t ts)
  let ?D1 = "snd (Doctor_enqueueRoutine t D)"
  have lt: "sizeQ D < capacity D" using Cons.prems by simp
  have i1: "queue_inv ?D1" by (rule enqueue_inv[OF Cons.prems(1) lt])
  have c1: "queueContents ?D1 = queueContents D @ [t]" by (rule enqueue_contents[OF Cons.prems(1) lt])
  have s1: "sizeQ ?D1 = sizeQ D + 1" using lt by (simp add: enqueue_size isFull_def)
  have "sizeQ ?D1 + int (length ts) \<le> capacity ?D1"
    using Cons.prems s1 by (simp add: enqueue_fields)
  from Cons.IH[OF i1 this] show ?case
    using c1 s1 enqueue_same[of D t] by (auto simp: reenqueue_Cons intro: same_doctor_trans)
qed

section \<open>The drain loops\<close>

lemma drainRoutine_spec:
  assumes "queue_inv D"
  shows "\<exists>D0. drainRoutine tid D removed pend tmp =
                 Some (D0, drainTokens tid (queueContents D) removed pend tmp) \<and>
              queue_inv D0 \<and> sizeQ D0 = 0 \<and> same_doctor D D0"
  using assms
proof (induction n \<equiv> "length (queueContents D)" arbitrary: D removed pend tmp)
  case 0
  then have z: "sizeQ D = 0" by (auto simp: queueContents_def queue_inv_def)
  then have "dequeueRoutine D = None" by (simp add: dequeue_empty isEmpty_def)
  then have "drainRoutine tid D removed pend tmp = Some (D, removed, pend, tmp)"
    by (subst drainRoutine.simps) simp
  then show ?case using 0 z by (auto simp: queueContents_Nil same_doctor_refl)
next
  case (Suc n)
  then have nz: "sizeQ D \<noteq> 0" by (auto simp: queueContents_def)
  from dequeue_ok[OF Suc.prems nz] obtain D1 where
    d: "dequeueRoutine D = Some (hd (queueContents D), D1)" and i: "queue_inv D1" and
    c: "queueContents D1 = tl (queueContents D)" and sd: "same_doctor D D1" by blast
  have ne: "queueContents D \<noteq> []" using Suc.hyps(2) by auto
  then obtain ot q where q: "queueContents D = ot # q" by (cases "queueContents D") auto
  have len: "n = length (queueContents D1)" using Suc.hyps(2) c q by simp
  have r: "\<exists>D0. drainRoutine tid D1 removed pend tmp =
          Some (D0, drainTokens tid (queueContents D1) removed pend tmp) \<and>
          queue_inv D0 \<and> sizeQ D0 = 0 \<and> same_doctor D1 D0" for removed pend tmp
    using Suc.hyps(1)[OF len i] by blast
  show ?case
  proof (cases "\<not> removed \<and> tokenId ot = tid")
    case True
    obtain D0 where "drainRoutine tid D1 True (pend - 1) tmp =
          Some (D0, drainTokens tid (queueContents D1) True (pend - 1) tmp)"
          "queue_inv D0" "sizeQ D0 = 0" "same_doctor D1 D0" using r by blast
    moreover have "drainRoutine tid D removed pend tmp = drainRoutine tid D1 True (pend - 1) tmp"
      using True d q by (subst drainRoutine.simps) simp
    ultimately show ?thesis using True q c sd by (auto intro: same_doctor_trans)
  next
    case False
    obtain D0 where "drainRoutine tid D1 removed pend (tmp @ [ot]) =
          Some (D0, drainTokens tid (queueContents D1) removed pend (tmp @ [ot]))"
          "queue_inv D0" "sizeQ D0 = 0" "same_doctor D1 D0" using r by blast
    moreover have "drainRoutine tid D removed pend tmp = drainRoutine tid D1 removed pend (tmp @ [ot])"
      using False d q by (subst drainRoutine.simps) auto
    ultimately show ?thesis using False q c sd by (auto intro: same_doctor_trans)
  qed
qed

lemma drainTokens_none:
  "\<forall>e\<in>set q. tokenId e \<noteq> tid \<Longrightarrow> drainTokens tid q removed pend acc = (removed, pend, acc @ q)"
  by (induction q arbitrary: acc) simp_all

lemma drainTokens_removed: "drainTokens tid q True pend acc = (True, pend, acc @ q)"
  by (induction q arbitrary: acc) simp_all

lemma drainTokens_first:
  assumes "\<forall>e\<in>set q1. tokenId e \<noteq> tid" "tokenId x = tid"
  shows "drainTokens tid (q1 @ x # q2) False pend acc = (True, pend - 1, acc @ q1 @ q2)"
  using assms by (induction q1 arbitrary: acc) (simp_all add: drainTokens_removed)

lemma drainTokens_cases:
  "(\<exists>q1 x q2. q = q1 @ x # q2 \<and> (\<forall>e\<in>set q1. tokenId e \<noteq> tid) \<and> tokenId x = tid)
   \<or> (\<forall>e\<in>set q. tokenId e \<noteq> tid)"
proof (cases "\<forall>e\<in>set q. tokenId e \<noteq> tid")
  case True then show ?thesis by simp
next
  case False
  then have "\<exists>e\<in>set q. tokenId e = tid" by simp
  from split_list_first_prop[OF this] show ?thesis by blast
qed

lemma drainHeap_none:
  "\<forall>e\<in>set h. tokenId (tt_token e) \<noteq> tid \<Longrightarrow>
   drainHeap tid h removed pend acc = (removed, pend, acc @ h)"
  by (induction h arbitrary: acc) simp_all

lemma drainHeap_removed: "drainHeap tid h True pend acc = (True, pend, acc @ h)"
  by (induction h arbitrary: acc) simp_all

lemma drainHeap_first:
  assumes "\<forall>e\<in>set h1. tokenId (tt_token e) \<noteq> tid" "tokenId (tt_token x) = tid"
  shows "drainHeap tid (h1 @ x # h2) False pend acc = (True, pend - 1, acc @ h1 @ h2)"
  using assms by (induction h1 arbitrary: acc) (simp_all add: drainHeap_removed)

lemma drainHeap_cases:
  "(\<exists>h1 x h2. h = h1 @ x # h2 \<and> (\<forall>e\<in>set h1. tokenId (tt_token e) \<noteq> tid) \<and>
      tokenId (tt_token x) = tid)
   \<or> (\<forall>e\<in>set h. tokenId (tt_token e) \<noteq> tid)"
proof (cases "\<forall>e\<in>set h. tokenId (tt_token e) \<noteq> tid")
  case True then show ?thesis by simp
next
  case False
  then have "\<exists>e\<in>set h. tokenId (tt_token e) = tid" by simp
  from split_list_first_prop[OF this] show ?thesis by blast
qed

section \<open>The slot list\<close>

lemma findSlotIn_Some:
  "findSlotIn sid xs = Some i \<Longrightarrow> i < length xs \<and> sl_slotId (xs ! i) = sid"
  by (induction xs arbitrary: i) (auto split: if_splits option.splits)

lemma findSlotIn_None: "findSlotIn sid xs = None \<longleftrightarrow> (\<forall>x\<in>set xs. sl_slotId x \<noteq> sid)"
  by (induction xs) (auto split: option.splits)

lemma firstTaken_Some: "firstTaken xs = Some i \<Longrightarrow> i < length xs \<and> taken (xs ! i)"
  by (induction xs arbitrary: i) (auto split: if_splits option.splits)

lemma firstTaken_None: "firstTaken xs = None \<longleftrightarrow> (\<forall>x\<in>set xs. \<not> taken x)"
  by (induction xs) (auto split: option.splits)

lemma unlinkSlot_find:
  "findSlotIn sid xs = Some i \<Longrightarrow> unlinkSlot sid xs = Some (take i xs @ drop (Suc i) xs)"
  by (induction xs arbitrary: i) (auto split: if_splits option.splits)

lemma unlinkSlot_None: "findSlotIn sid xs = None \<Longrightarrow> unlinkSlot sid xs = None"
  by (induction xs) (auto split: if_splits option.splits)

lemma findSlotIn_update:
  "sl_slotId y = sl_slotId (xs ! i) \<Longrightarrow> findSlotIn sid (xs[i := y]) = findSlotIn sid xs"
proof (induction xs arbitrary: i)
  case Nil then show ?case by simp
next
  case (Cons x xs)
  then show ?case by (cases i) auto
qed

section \<open>The triage collection is a sorted list\<close>

lemma tt_greater_key: "tt_greater a b = (tt_key b < tt_key a)"
  by (auto simp: tt_greater_def tt_key_def)

lemma heap_push_insort: "heap_push x h = insort_key tt_key x h"
  by (induction h) (auto simp: tt_greater_key)

lemma rebuildHeap_snoc: "rebuildHeap (xs @ [x]) = heap_push x (rebuildHeap xs)"
  by (simp add: rebuildHeap_def)

lemma insort_last:
  "\<forall>y\<in>set xs. tt_key y < tt_key x \<Longrightarrow> insort_key tt_key x xs = xs @ [x]"
  by (induction xs) auto

lemma rebuildHeap_id:
  "sorted (map tt_key xs) \<Longrightarrow> distinct (map tt_key xs) \<Longrightarrow> rebuildHeap xs = xs"
proof (induction xs rule: rev_induct)
  case Nil
  show ?case by (simp add: rebuildHeap_def)
next
  case (snoc x xs)
  have s: "sorted (map tt_key xs)" and d: "distinct (map tt_key xs)"
    using snoc.prems by (auto simp: sorted_append)
  have "\<forall>y\<in>set xs. tt_key y < tt_key x"
  proof
    fix y assume y: "y \<in> set xs"
    then have "tt_key y \<le> tt_key x" using snoc.prems(1) by (simp add: sorted_append)
    moreover have "tt_key y \<noteq> tt_key x" using snoc.prems(2) y by (auto simp: image_iff)
    ultimately show "tt_key y < tt_key x" by simp
  qed
  then show ?case
    using snoc.IH[OF s d] by (simp add: rebuildHeap_snoc heap_push_insort insort_last)
qed

lemma distinct_map_insort:
  "distinct (map g (insort_key k x xs) @ ys) = distinct (g x # map g xs @ ys)"
  by (induction xs) (auto simp: set_insort_key)

section \<open>The invariant, piece by piece\<close>

lemma Action_new_simps [simp]:
  "atype (Action_new ty) = ty" "token (Action_new ty) = Token_default"
  "a_slotId (Action_new ty) = - 1" "a_doctorId (Action_new ty) = - 1"
  "patientSnapshot (Action_new ty) = Patient_default" "slotPreviouslyTaken (Action_new ty) = False"
  "a_severity (Action_new ty) = 0" "patientIdForUpsert (Action_new ty) = - 1"
  "patientExistedBefore (Action_new ty) = False"
  by (simp_all add: Action_new_def)

lemma Token_default_simps [simp]:
  "tokenId Token_default = - 1" "patientId Token_default = - 1" "doctorId Token_default = - 1"
  "slotId Token_default = - 1" "tktype Token_default = ROUTINE"
  by (simp_all add: Token_default_def)

lemma not_emergency: "tktype t \<noteq> EMERGENCY \<Longrightarrow> tktype t = ROUTINE"
  by (cases "tktype t") simp_all

lemma doctor_ok_mono: "doctor_ok n d D \<Longrightarrow> n \<le> m \<Longrightarrow> doctor_ok m d D"
  by (fastforce simp: doctor_ok_def)

lemma docs_ok_mono: "docs_ok n ds \<Longrightarrow> n \<le> m \<Longrightarrow> docs_ok m ds"
  unfolding docs_ok_def by (blast intro: doctor_ok_mono)

lemma docs_ok_upd: "docs_ok n ds \<Longrightarrow> doctor_ok n d D \<Longrightarrow> docs_ok n (ds(d \<mapsto> D))"
  by (simp add: docs_ok_def)

lemma docs_ok_get: "docs_ok n ds \<Longrightarrow> ds d = Some D \<Longrightarrow> doctor_ok n d D"
  by (simp add: docs_ok_def)

lemma heap_ok_mono: "heap_ok n h \<Longrightarrow> n \<le> m \<Longrightarrow> heap_ok m h"
  by (fastforce simp: heap_ok_def)

lemma ledger_ok_mono: "ledger_ok n l \<Longrightarrow> n \<le> m \<Longrightarrow> ledger_ok m l"
  by (fastforce simp: ledger_ok_def)

lemma ledger_ok_Cons: "ledger_ok n (a # l) = (tokenId (token a) < n \<and> ledger_ok n l)"
  by (simp add: ledger_ok_def)

lemma heap_ok_push:
  "heap_ok n h \<Longrightarrow> tokenId (tt_token x) < n \<Longrightarrow> tktype (tt_token x) = EMERGENCY \<Longrightarrow>
   heap_ok n (heap_push x h)"
  by (auto simp: heap_ok_def heap_push_insort sorted_insort_key set_insort_key)

lemma heap_ok_Cons: "heap_ok n (e # h) \<Longrightarrow> heap_ok n h"
  by (simp add: heap_ok_def)

lemma heap_ok_remove: "heap_ok n (h1 @ x # h2) \<Longrightarrow> heap_ok n (h1 @ h2)"
  by (auto simp: heap_ok_def sorted_append)

lemma doctor_ok_new: "0 \<le> cap \<Longrightarrow> doctor_ok n d (Doctor_new i nm sp cap)"
  by (simp add: doctor_ok_def Doctor_new_def queue_inv_def queueContents_def)

lemma doctor_ok_insertSlot: "doctor_ok n d D \<Longrightarrow> 1 \<le> n \<Longrightarrow> doctor_ok n d (insertSlot sid st en D)"
  by (auto simp: doctor_ok_def insertSlot_def SlotNode_new_def)

lemma doctor_ok_setSlot:
  "doctor_ok n d D \<Longrightarrow> tid < n \<Longrightarrow> (\<not> tk \<longrightarrow> tid = - 1) \<Longrightarrow> doctor_ok n d (setSlot i tk tid D)"
  unfolding doctor_ok_def setSlot_def
  by (auto dest!: set_update_subset_insert[THEN subsetD])

lemma doctor_ok_cancelSlot: "doctor_ok n d D \<Longrightarrow> doctor_ok n d (snd (Doctor_cancelSlot sid D))"
proof (cases "findSlotIn sid (slotHead D)")
  case None
  assume "doctor_ok n d D"
  then show ?thesis using None by (simp add: Doctor_cancelSlot_def unlinkSlot_None)
next
  case (Some i)
  assume "doctor_ok n d D"
  then show ?thesis using Some
    by (auto simp: Doctor_cancelSlot_def unlinkSlot_find doctor_ok_def dest: in_set_takeD in_set_dropD)
qed

lemma doctor_ok_enqueue:
  assumes "doctor_ok n d D" "tokenId t < n" "tktype t = ROUTINE" "doctorId t = d"
  shows "doctor_ok n d (snd (Doctor_enqueueRoutine t D))"
proof (cases "isFull D")
  case True
  then show ?thesis using assms by (simp add: enqueue_full)
next
  case False
  with assms have lt: "sizeQ D < capacity D" and qi: "queue_inv D"
    by (auto simp: doctor_ok_def queue_inv_def isFull_def)
  show ?thesis
    using assms enqueue_inv[OF qi lt, of t] enqueue_contents[OF qi lt, of t]
    by (auto simp: doctor_ok_def enqueue_fields)
qed

lemma doctor_ok_dequeue:
  assumes "doctor_ok n d D" "dequeueRoutine D = Some (t, D1)"
  shows "doctor_ok n d D1 \<and> tokenId t < n \<and> tktype t = ROUTINE \<and> doctorId t = d \<and>
         queueContents D = t # queueContents D1 \<and> same_doctor D D1"
proof -
  have qi: "queue_inv D" using assms by (simp add: doctor_ok_def)
  have nz: "sizeQ D \<noteq> 0" using assms(2) by (auto simp: dequeueRoutine_def isEmpty_def split: if_splits)
  from dequeue_ok[OF qi nz] obtain D1' where
    d: "dequeueRoutine D = Some (hd (queueContents D), D1')" and i: "queue_inv D1'" and
    c: "queueContents D1' = tl (queueContents D)" and sd: "same_doctor D D1'" by blast
  have eq: "t = hd (queueContents D)" "D1 = D1'" using d assms(2) by auto
  have ne: "queueContents D \<noteq> []" by (rule queueContents_nonempty[OF qi nz])
  then have q: "queueContents D = t # queueContents D1" using eq c by simp
  have all: "\<forall>x\<in>set (queueContents D). tokenId x < n \<and> tktype x = ROUTINE \<and> doctorId x = d"
    and sl: "\<forall>x\<in>set (slotHead D). sl_tokenId x < n \<and> (\<not> taken x \<longrightarrow> sl_tokenId x = - 1)"
    using assms(1) by (simp_all add: doctor_ok_def)
  have t: "tokenId t < n \<and> tktype t = ROUTINE \<and> doctorId t = d" using all q by simp
  have rest: "\<forall>x\<in>set (queueContents D1). tokenId x < n \<and> tktype x = ROUTINE \<and> doctorId x = d"
    using all q by simp
  have "slotHead D1 = slotHead D" using sd eq(2) by (simp add: same_doctor_def)
  then have "doctor_ok n d D1" using rest sl i eq(2) by (simp add: doctor_ok_def)
  then show ?thesis using t q sd eq(2) by simp
qed

lemma ids_distinct_other:
  "\<not> (atype a = SERVE \<and> tktype (token a) = EMERGENCY) \<Longrightarrow> ids_distinct h (a # l) = ids_distinct h l"
  by (auto simp: ids_distinct_def servedEmergency_def)

lemma ids_distinct_serve:
  "ids_distinct (e # h) l \<Longrightarrow> tokenId (token a) = tokenId (tt_token e) \<Longrightarrow> ids_distinct h (a # l)"
  by (auto simp: ids_distinct_def servedEmergency_def)

lemma ids_distinct_push_fresh:
  assumes "ids_distinct h l" "heap_ok n h" "ledger_ok n l" "tokenId (tt_token x) = n"
  shows "ids_distinct (heap_push x h) l"
proof -
  have "n \<notin> (\<lambda>e. tokenId (tt_token e)) ` set h" using assms(2) by (auto simp: heap_ok_def)
  moreover have "n \<notin> (\<lambda>a. tokenId (token a)) ` set (servedEmergency l)"
    using assms(3) by (auto simp: ledger_ok_def servedEmergency_def)
  ultimately show ?thesis
    using assms(1,4) unfolding ids_distinct_def heap_push_insort distinct_map_insort by auto
qed

lemma ids_distinct_unserve:
  assumes "ids_distinct h (a # l)" "atype a = SERVE" "tktype (token a) = EMERGENCY"
    "tokenId (tt_token x) = tokenId (token a)"
  shows "ids_distinct (heap_push x h) l"
  using assms unfolding ids_distinct_def heap_push_insort distinct_map_insort
  by (auto simp: servedEmergency_def)

lemma ids_distinct_remove: "ids_distinct (h1 @ x # h2) l \<Longrightarrow> ids_distinct (h1 @ h2) l"
  by (auto simp: ids_distinct_def)

lemma ids_distinct_tail: "ids_distinct h (a # l) \<Longrightarrow> ids_distinct h l"
  by (auto simp: ids_distinct_def servedEmergency_def split: if_splits)

lemma ids_keys: "ids_distinct h l \<Longrightarrow> distinct (map tt_key h)"
proof -
  assume "ids_distinct h l"
  then have "distinct (map (\<lambda>e. tokenId (tt_token e)) h)" by (simp add: ids_distinct_def)
  then show ?thesis by (induction h) (auto simp: tt_key_def)
qed

lemma undo_triage_heap:
  assumes "heap_ok n h" "ids_distinct h l" "drainHeap tid h False pend [] = (r, p, all)"
  shows "heap_ok n (rebuildHeap all) \<and> ids_distinct (rebuildHeap all) l \<and>
         (r \<longrightarrow> p = pend - 1) \<and> (\<not> r \<longrightarrow> p = pend \<and> rebuildHeap all = h)"
proof -
  have s: "sorted (map tt_key h)" using assms(1) by (simp add: heap_ok_def)
  have d: "distinct (map tt_key h)" by (rule ids_keys[OF assms(2)])
  from drainHeap_cases[of h tid] show ?thesis
  proof
    assume "\<exists>h1 x h2. h = h1 @ x # h2 \<and> (\<forall>e\<in>set h1. tokenId (tt_token e) \<noteq> tid) \<and>
              tokenId (tt_token x) = tid"
    then obtain h1 x h2 where h: "h = h1 @ x # h2" and n1: "\<forall>e\<in>set h1. tokenId (tt_token e) \<noteq> tid"
      and x: "tokenId (tt_token x) = tid" by blast
    have res: "r = True" "p = pend - 1" "all = h1 @ h2"
      using assms(3) drainHeap_first[OF n1 x, of h2 pend "[]"] h by simp_all
    have "sorted (map tt_key (h1 @ h2))" "distinct (map tt_key (h1 @ h2))"
      using s d h by (auto simp: sorted_append)
    then have "rebuildHeap all = h1 @ h2" using res by (simp add: rebuildHeap_id)
    then show ?thesis
      using res assms(1,2) h heap_ok_remove[of n h1 x h2] ids_distinct_remove[of h1 x h2 l] by simp
  next
    assume n: "\<forall>e\<in>set h. tokenId (tt_token e) \<noteq> tid"
    have res: "r = False" "p = pend" "all = h"
      using assms(3) drainHeap_none[OF n, of False pend "[]"] by simp_all
    then show ?thesis using assms(1,2) s d by (simp add: rebuildHeap_id)
  qed
qed

lemma drainTokens_result:
  assumes "(r, p, tmp) = drainTokens tid q False pend []"
  shows "set tmp \<subseteq> set q \<and> length tmp \<le> length q \<and> (r \<longrightarrow> p = pend - 1) \<and>
         (\<not> r \<longrightarrow> p = pend \<and> tmp = q)"
proof -
  from drainTokens_cases[of q tid] show ?thesis
  proof
    assume "\<exists>q1 x q2. q = q1 @ x # q2 \<and> (\<forall>e\<in>set q1. tokenId e \<noteq> tid) \<and> tokenId x = tid"
    then obtain q1 x q2 where h: "q = q1 @ x # q2" and n1: "\<forall>e\<in>set q1. tokenId e \<noteq> tid"
      and x: "tokenId x = tid" by blast
    show ?thesis using assms drainTokens_first[OF n1 x, of q2 pend "[]"] h by auto
  next
    assume n: "\<forall>e\<in>set q. tokenId e \<noteq> tid"
    show ?thesis using assms drainTokens_none[OF n, of False pend "[]"] by auto
  qed
qed

lemma undo_book_fifo:
  assumes "doctor_ok n d D" "drainRoutine tid D False pend [] = Some (D1, r, p, tmp)"
  shows "doctor_ok n d (reenqueue D1 tmp) \<and> same_doctor D (reenqueue D1 tmp) \<and>
         (r, p, tmp) = drainTokens tid (queueContents D) False pend [] \<and>
         queueContents (reenqueue D1 tmp) = tmp"
proof -
  have qi: "queue_inv D" using assms(1) by (simp add: doctor_ok_def)
  from drainRoutine_spec[OF qi, of tid False pend "[]"] assms(2)
  have dt: "(r, p, tmp) = drainTokens tid (queueContents D) False pend []"
    and q1: "queue_inv D1" and z: "sizeQ D1 = 0" and sd: "same_doctor D D1" by auto
  have sub: "set tmp \<subseteq> set (queueContents D)" "length tmp \<le> length (queueContents D)"
    using drainTokens_result[OF dt] by simp_all
  have "int (length (queueContents D)) \<le> capacity D"
    using qi by (simp add: length_queueContents queue_inv_def)
  then have cap: "sizeQ D1 + int (length tmp) \<le> capacity D1"
    using sub z sd by (simp add: same_doctor_def)
  from reenqueue_spec[OF q1 cap] have
    r1: "queue_inv (reenqueue D1 tmp)" and r2: "queueContents (reenqueue D1 tmp) = tmp"
    and r3: "same_doctor D1 (reenqueue D1 tmp)" using z by (simp_all add: queueContents_Nil)
  have sd2: "same_doctor D (reenqueue D1 tmp)" using sd r3 by (rule same_doctor_trans)
  have "doctor_ok n d (reenqueue D1 tmp)"
    using assms(1) r1 r2 sub sd2 unfolding doctor_ok_def same_doctor_def by auto
  then show ?thesis using sd2 dt r2 by simp
qed

section \<open>Every operation keeps the invariant\<close>

lemma sys_inv_init: "sys_inv HospitalSystem_init"
  by (simp add: sys_inv_def HospitalSystem_init_def docs_ok_def heap_ok_def ledger_ok_def
      ids_distinct_def servedEmergency_def)

lemma addDoctor_inv: "sys_inv s \<Longrightarrow> addDoctor i nm sp cap s = Some (r, s') \<Longrightarrow> sys_inv s'"
  by (auto simp: addDoctor_def sys_inv_def split: if_splits intro!: docs_ok_upd doctor_ok_new)

lemma scheduleAddSlot_inv: "sys_inv s \<Longrightarrow> sys_inv (snd (scheduleAddSlot d sid st en s))"
  by (auto simp: scheduleAddSlot_def sys_inv_def split: option.splits
      intro!: docs_ok_upd doctor_ok_insertSlot dest: docs_ok_get)

lemma scheduleCancelSlot_inv:
  assumes "sys_inv s"
  shows "sys_inv (snd (scheduleCancelSlot d sid s))"
proof (cases "doctors s d")
  case None
  then show ?thesis using assms by (simp add: scheduleCancelSlot_def)
next
  case (Some D)
  note D = this
  have ok: "doctor_ok (nextTokenId s) d D" using assms D by (auto simp: sys_inv_def dest: docs_ok_get)
  show ?thesis
  proof (cases "findSlot sid D")
    case None
    then show ?thesis using assms D by (simp add: scheduleCancelSlot_def)
  next
    case (Some i)
    then have i: "i < length (slotHead D)" by (auto simp: findSlot_def dest: findSlotIn_Some)
    then have mem: "slotHead D ! i \<in> set (slotHead D)" by simp
    then have lt: "sl_tokenId (slotHead D ! i) < nextTokenId s" using ok by (simp add: doctor_ok_def)
    have n1: "- 1 < nextTokenId s" using assms by (simp add: sys_inv_def)
    have d1: "doctor_ok (nextTokenId s) d (snd (Doctor_cancelSlot sid (setSlot i False (- 1) D)))"
      by (intro doctor_ok_cancelSlot doctor_ok_setSlot ok n1) simp
    have d2: "doctor_ok (nextTokenId s) d (snd (Doctor_cancelSlot sid D))"
      by (intro doctor_ok_cancelSlot ok)
    show ?thesis
      using assms D Some lt d1 d2
      by (simp add: scheduleCancelSlot_def Let_def case_prod_beta sys_inv_def docs_ok_upd
          ledger_ok_Cons ids_distinct_other)
  qed
qed

lemma patientUpsert_inv: "sys_inv s \<Longrightarrow> sys_inv (patientUpsert p s)"
  by (simp add: patientUpsert_def sys_inv_def Let_def ledger_ok_Cons ids_distinct_other)

lemma triageInsert_inv:
  assumes "sys_inv s"
  shows "sys_inv (snd (triageInsert p sev s))"
proof (cases "patients s p = None")
  case True
  then show ?thesis using assms by (simp add: triageInsert_def)
next
  case False
  let ?n = "nextTokenId s"
  let ?tk = "\<lparr>tokenId = ?n, patientId = p, doctorId = - 1, slotId = - 1, tktype = EMERGENCY\<rparr>"
  let ?x = "\<lparr>severity = sev, tt_token = ?tk\<rparr>"
  have "heap_ok (?n + 1) (triageHeap s)"
    using assms by (auto simp: sys_inv_def intro: heap_ok_mono)
  then have h: "heap_ok (?n + 1) (heap_push ?x (triageHeap s))"
    by (rule heap_ok_push) simp_all
  have d: "ids_distinct (heap_push ?x (triageHeap s)) (undoStack s)"
    using assms by (intro ids_distinct_push_fresh[of _ _ ?n]) (simp_all add: sys_inv_def)
  have l: "ledger_ok (?n + 1) (undoStack s)" using assms by (auto simp: sys_inv_def intro: ledger_ok_mono)
  have ds: "docs_ok (?n + 1) (doctors s)" using assms by (auto simp: sys_inv_def intro: docs_ok_mono)
  show ?thesis
    using False assms h d l ds
    by (simp add: triageInsert_def Let_def sys_inv_def ledger_ok_Cons ids_distinct_other)
qed

lemma enqueueRoutine_inv:
  assumes "sys_inv s"
  shows "sys_inv (snd (enqueueRoutine p d sid s))"
proof (cases "doctors s d")
  case None
  then show ?thesis using assms by (simp add: enqueueRoutine_def)
next
  case (Some D)
  let ?n = "nextTokenId s"
  have ok: "doctor_ok (?n + 1) d D"
    using assms Some by (auto simp: sys_inv_def dest!: docs_ok_get intro: doctor_ok_mono)
  have l: "ledger_ok (?n + 1) (undoStack s)" using assms by (auto simp: sys_inv_def intro: ledger_ok_mono)
  have ds: "docs_ok (?n + 1) (doctors s)" using assms by (auto simp: sys_inv_def intro: docs_ok_mono)
  have h: "heap_ok (?n + 1) (triageHeap s)" using assms by (auto simp: sys_inv_def intro: heap_ok_mono)
  have e: "doctor_ok (?n + 1) d (snd (Doctor_enqueueRoutine
      \<lparr>tokenId = ?n, patientId = p, doctorId = d, slotId = sid', tktype = ROUTINE\<rparr> D))" for sid'
    by (intro doctor_ok_enqueue ok) simp_all
  have sl: "doctor_ok (?n + 1) d (setSlot i True ?n D)" for i
    by (intro doctor_ok_setSlot ok) simp_all
  show ?thesis
    using Some assms l ds h e sl
    by (simp add: enqueueRoutine_def Let_def sys_inv_def ledger_ok_Cons ids_distinct_other docs_ok_upd
        split: option.splits)
qed

lemma serveNext_inv:
  assumes "sys_inv s"
  shows "sys_inv (snd (serveNext d s))"
proof (cases "triageHeap s")
  case (Cons tt rest)
  have h: "heap_ok (nextTokenId s) rest" using assms Cons by (auto simp: sys_inv_def dest: heap_ok_Cons)
  have lt: "tokenId (tt_token tt) < nextTokenId s" using assms Cons by (simp add: sys_inv_def heap_ok_def)
  have "ids_distinct rest
          ((Action_new SERVE)\<lparr>token := (tt_token tt)\<lparr>tktype := EMERGENCY\<rparr>, a_severity := severity tt\<rparr>
           # undoStack s)"
    using assms Cons by (intro ids_distinct_serve[of tt]) (simp_all add: sys_inv_def)
  then show ?thesis
    using assms Cons h lt by (simp add: serveNext_def Let_def sys_inv_def ledger_ok_Cons)
next
  case Nil
  note heap = this
  show ?thesis
  proof (cases "doctors s d")
    case None
    then show ?thesis using assms heap by (simp add: serveNext_def)
  next
    case (Some D)
    note D = this
    have ok: "doctor_ok (nextTokenId s) d D" using assms Some by (auto simp: sys_inv_def dest: docs_ok_get)
    have n1: "- 1 < nextTokenId s" using assms by (simp add: sys_inv_def)
    show ?thesis
    proof (cases "dequeueRoutine D")
      case (Some a)
      then obtain t D1 where a: "dequeueRoutine D = Some (t, D1)" by (cases a) auto
      from doctor_ok_dequeue[OF ok a] have "doctor_ok (nextTokenId s) d D1" "tokenId t < nextTokenId s"
        "tktype t = ROUTINE" by simp_all
      then show ?thesis
        using assms heap D a
        by (simp add: serveNext_def Let_def sys_inv_def ledger_ok_Cons ids_distinct_other docs_ok_upd)
    next
      case None
      note deq = this
      show ?thesis
      proof (cases "firstTaken (slotHead D)")
        case None
        then show ?thesis using assms heap D deq by (simp add: serveNext_def)
      next
        case (Some i)
        then have "i < length (slotHead D)" by (auto dest: firstTaken_Some)
        then have "slotHead D ! i \<in> set (slotHead D)" by simp
        then have lt: "sl_tokenId (slotHead D ! i) < nextTokenId s" using ok by (simp add: doctor_ok_def)
        have "doctor_ok (nextTokenId s) d (setSlot i False (- 1) D)"
          by (intro doctor_ok_setSlot ok n1) simp
        then show ?thesis
          using assms heap D deq Some lt
          by (simp add: serveNext_def Let_def sys_inv_def ledger_ok_Cons ids_distinct_other docs_ok_upd)
      qed
    qed
  qed
qed

lemma undoPop_inv:
  assumes "sys_inv s" "undoPop s = Some (r, s')"
  shows "sys_inv s'"
proof (cases "undoStack s")
  case Nil
  then show ?thesis using assms by (simp add: undoPop_def)
next
  case (Cons act rest)
  let ?n = "nextTokenId s"
  let ?s0 = "s\<lparr>undoStack := rest\<rparr>"
  have n1: "- 1 < ?n" using assms(1) by (simp add: sys_inv_def)
  have alt: "tokenId (token act) < ?n" using assms(1) Cons by (simp add: sys_inv_def ledger_ok_Cons)
  have s0: "sys_inv ?s0"
    using assms(1) Cons by (auto simp: sys_inv_def ledger_ok_Cons dest: ids_distinct_tail)
  have dok: "doctor_ok ?n k D" if "doctors s k = Some D" for k D
    using assms(1) that by (auto simp: sys_inv_def dest: docs_ok_get)
  show ?thesis
  proof (cases "atype act")
    case BOOK
    show ?thesis
    proof (cases "doctors s (a_doctorId act)")
      case None
      then show ?thesis using assms(2) Cons BOOK s0 by (simp add: undoPop_def)
    next
      case (Some D)
      note D = this
      show ?thesis
      proof (cases "slotId (token act) \<noteq> - 1")
        case True
        have "doctor_ok ?n (a_doctorId act) (setSlot i False (- 1) D)" for i
          by (intro doctor_ok_setSlot dok[OF D] n1) simp
        then show ?thesis
          using assms(2) Cons BOOK D True s0
          by (auto simp: undoPop_def Let_def sys_inv_def docs_ok_upd split: option.splits if_splits)
      next
        case False
        then obtain D1 rm p tmp where
          dr: "drainRoutine (tokenId (token act)) D False (pendingCountTotal s) [] = Some (D1, rm, p, tmp)"
          and s': "s' = ?s0\<lparr>doctors := (doctors s)(a_doctorId act \<mapsto> reenqueue D1 tmp),
                               pendingCountTotal := p\<rparr>"
          using assms(2) Cons BOOK D by (auto simp: undoPop_def Let_def split: option.splits)
        from undo_book_fifo[OF dok[OF D] dr]
        have "doctor_ok ?n (a_doctorId act) (reenqueue D1 tmp)" by simp
        then show ?thesis using s' s0 by (simp add: sys_inv_def docs_ok_upd)
      qed
    qed
  next
    case CANCEL
    have "doctor_ok ?n k (setSlot i True (tokenId (token act)) D)" if "doctors s k = Some D" for i k D
      by (intro doctor_ok_setSlot dok[OF that] alt) simp
    then show ?thesis
      using assms(2) Cons CANCEL s0
      by (auto simp: undoPop_def Let_def sys_inv_def docs_ok_upd split: option.splits)
  next
    case SERVE
    show ?thesis
    proof (cases "tktype (token act) = EMERGENCY")
      case True
      let ?x = "\<lparr>severity = a_severity act, tt_token = token act\<rparr>"
      have "heap_ok ?n (triageHeap s)" using assms(1) by (simp add: sys_inv_def)
      then have h: "heap_ok ?n (heap_push ?x (triageHeap s))"
        by (rule heap_ok_push) (simp_all add: alt True)
      have d: "ids_distinct (heap_push ?x (triageHeap s)) rest"
        using assms(1) Cons SERVE True
        by (intro ids_distinct_unserve[of _ act]) (simp_all add: sys_inv_def)
      show ?thesis
        using assms(2) Cons SERVE True s0 h d by (auto simp: undoPop_def Let_def sys_inv_def)
    next
      case False
      then have rt: "tktype (token act) = ROUTINE" by (rule not_emergency)
      have "doctor_ok ?n (doctorId (token act)) (snd (Doctor_enqueueRoutine (token act) D))"
        if "doctors s (doctorId (token act)) = Some D" for D
        by (intro doctor_ok_enqueue dok[OF that] alt rt) simp
      then show ?thesis
        using assms(2) Cons SERVE False s0
        by (auto simp: undoPop_def Let_def sys_inv_def docs_ok_upd split: option.splits)
    qed
  next
    case REGISTER_PATIENT
    then show ?thesis
      using assms(2) Cons s0 by (auto simp: undoPop_def Let_def sys_inv_def split: if_splits)
  next
    case TRIAGE_INSERT
    obtain rm p all where
      dr: "drainHeap (tokenId (token act)) (triageHeap s) False (pendingCountTotal s) [] = (rm, p, all)"
      by (metis prod_cases3)
    have s': "s' = ?s0\<lparr>triageHeap := rebuildHeap all, pendingCountTotal := p\<rparr>"
      using assms(2) Cons TRIAGE_INSERT dr by (simp add: undoPop_def Let_def)
    have "heap_ok ?n (triageHeap s)" "ids_distinct (triageHeap s) rest"
      using s0 by (simp_all add: sys_inv_def)
    from undo_triage_heap[OF this dr] show ?thesis using s' s0 by (simp add: sys_inv_def)
  qed
qed

lemma undoPop_total:
  assumes "sys_inv s"
  shows "\<exists>r s'. undoPop s = Some (r, s')"
proof (cases "undoStack s")
  case Nil
  then have "undoPop s = Some (False, s)" by (simp add: undoPop_def)
  then show ?thesis by blast
next
  case (Cons act rest)
  have dr: "\<exists>D1 rm p tmp. drainRoutine tid D False pend [] = Some (D1, rm, p, tmp)"
    if "doctors s k = Some D" for tid D pend k
  proof -
    have "queue_inv D" using assms that by (auto simp: sys_inv_def doctor_ok_def dest!: docs_ok_get)
    from drainRoutine_spec[OF this, of tid False pend "[]"] show ?thesis
      by (metis prod_cases3)
  qed
  show ?thesis
  proof (cases "atype act")
    case BOOK
    show ?thesis
    proof (cases "doctors s (a_doctorId act)")
      case None
      then show ?thesis using Cons BOOK by (auto simp: undoPop_def)
    next
      case (Some D)
      from dr[OF Some] obtain D1 rm p tmp where
        "drainRoutine (tokenId (token act)) D False (pendingCountTotal s) [] = Some (D1, rm, p, tmp)"
        by blast
      then show ?thesis using Cons BOOK Some
        by (auto simp: undoPop_def Let_def split: option.splits)
    qed
  qed (use Cons in \<open>auto simp: undoPop_def Let_def split: option.splits prod.splits\<close>)
qed

lemma exec_inv:
  assumes "sys_inv s" "exec c s = Some (r, s')"
  shows "sys_inv s'"
proof (cases c)
  case (AddDoctor i n sp cap)
  then show ?thesis using assms by (auto dest: addDoctor_inv)
next
  case (AddSlot d sid st en)
  then show ?thesis using assms scheduleAddSlot_inv[of s d sid st en] by (auto split: prod.splits)
next
  case (CancelSlot d sid)
  then show ?thesis using assms scheduleCancelSlot_inv[of s d sid] by (auto split: prod.splits)
next
  case (Upsert p)
  then show ?thesis using assms by (auto intro: patientUpsert_inv)
next
  case (Book p d sid)
  then show ?thesis using assms enqueueRoutine_inv[of s p d sid] by (auto split: prod.splits)
next
  case (Serve d)
  then show ?thesis using assms serveNext_inv[of s d] by (auto split: prod.splits)
next
  case (Triage p sev)
  then show ?thesis using assms triageInsert_inv[of s p sev] by (auto split: prod.splits)
next
  case Undo
  then show ?thesis using assms by (auto dest: undoPop_inv)
qed

lemma reachable_inv: "reachable s \<Longrightarrow> sys_inv s"
  by (induction rule: reachable.induct) (auto intro: sys_inv_init exec_inv)

lemma run_reachable: "reachable s \<Longrightarrow> run cs s = Some s' \<Longrightarrow> reachable s'"
proof (induction cs arbitrary: s)
  case Nil
  then show ?case by simp
next
  case (Cons c cs)
  then obtain r s1 where e: "exec c s = Some (r, s1)" and r: "run cs s1 = Some s'"
    by (auto split: option.splits)
  from reachable_step[OF Cons.prems(1) e] Cons.IH r show ?case by blast
qed

text \<open>
  No reachable state holds two triage entries that compare equal, and the entries are in
  the order of \<^verbatim>\<open>operator>\<close>.
\<close>

lemma reachable_heap_keys:
  "reachable s \<Longrightarrow> distinct (map tt_key (triageHeap s)) \<and> sorted (map tt_key (triageHeap s))"
  by (auto dest!: reachable_inv simp: sys_inv_def heap_ok_def dest: ids_keys)

section \<open>Serving and the example states\<close>

lemma run_append: "run (cs @ ds) s = (case run cs s of None \<Rightarrow> None | Some s' \<Rightarrow> run ds s')"
  by (induction cs arbitrary: s) (auto split: option.splits)

lemma serveNext_triage:
  assumes "triageHeap s = tt # rest"
  shows "serveNext did s =
          (Some ((tt_token tt)\<lparr>tktype := EMERGENCY\<rparr>),
           s\<lparr>triageHeap := rest, servedCount := servedCount s + 1,
             pendingCountTotal := pendingCountTotal s - 1,
             undoStack := (Action_new SERVE)\<lparr>token := (tt_token tt)\<lparr>tktype := EMERGENCY\<rparr>,
                              a_severity := severity tt\<rparr> # undoStack s,
             patients := (if patientId (tt_token tt) \<noteq> - 1
                          then bumpFreq (patientId (tt_token tt)) (patients s) else patients s)\<rparr>)"
  using assms by (simp add: serveNext_def Let_def)

lemma heap_hd_min:
  assumes "sorted (map tt_key h)" "e \<in> set h"
  shows "\<not> tt_greater (hd h) e"
proof (cases h)
  case Nil
  then show ?thesis using assms by simp
next
  case (Cons x xs)
  then have "tt_key x \<le> tt_key e" using assms by auto
  then show ?thesis using Cons by (simp add: tt_greater_key not_less)
qed

lemma demo_triage_run:
  "run (seedSampleData @ [Book 1 1 (- 1), Book 2 1 101, Triage 1 5, Triage 2 2, Triage 3 2])
       HospitalSystem_init = Some demo_triage"
proof -
  have "run (seedSampleData @ [Book 1 1 (- 1), Book 2 1 101, Triage 1 5, Triage 2 2, Triage 3 2])
       HospitalSystem_init \<noteq> None"
    by code_simp
  then show ?thesis by (auto simp: demo_triage_def)
qed

lemma demo_triage_reachable: "reachable demo_triage"
  using run_reachable[OF reachable_init demo_triage_run] .

lemma bumpFreq_dom: "m k \<noteq> None \<Longrightarrow> bumpFreq p m k \<noteq> None"
  by (simp add: bumpFreq_def Let_def)

lemma bumpFreq_known:
  "m p = Some q \<Longrightarrow> bumpFreq p m = m(p \<mapsto> q\<lparr>freq := freq q + 1\<rparr>)"
  by (simp add: bumpFreq_def)

lemma enqueueRoutine_fifo:
  assumes "doctors s d = Some D" "patients s p \<noteq> None"
  shows "enqueueRoutine p d (- 1) s =
     (if isFull D then (- 1, s\<lparr>nextTokenId := nextTokenId s + 1\<rparr>)
      else (nextTokenId s,
            s\<lparr>nextTokenId := nextTokenId s + 1,
              doctors := (doctors s)(d \<mapsto> snd (Doctor_enqueueRoutine
                 \<lparr>tokenId = nextTokenId s, patientId = p, doctorId = d, slotId = - 1, tktype = ROUTINE\<rparr> D)),
              undoStack := (Action_new BOOK)\<lparr>token := \<lparr>tokenId = nextTokenId s, patientId = p,
                 doctorId = d, slotId = - 1, tktype = ROUTINE\<rparr>, a_doctorId := d\<rparr> # undoStack s,
              pendingCountTotal := pendingCountTotal s + 1,
              patients := bumpFreq p (patients s)\<rparr>))"
  using assms by (auto simp: enqueueRoutine_def Let_def)

lemma serveNext_fifo:
  assumes "triageHeap s = []" "doctors s d = Some D" "dequeueRoutine D = Some (t, D1)"
  shows "serveNext d s =
     (Some t, s\<lparr>doctors := (doctors s)(d \<mapsto> D1), servedCount := servedCount s + 1,
                 pendingCountTotal := pendingCountTotal s - 1,
                 undoStack := (Action_new SERVE)\<lparr>token := t\<rparr> # undoStack s\<rparr>)"
  using assms by (simp add: serveNext_def)

lemma reachable_doctor:
  assumes "reachable s" "doctors s d = Some D"
  shows "doctor_ok (nextTokenId s) d D" "queue_inv D"
  using reachable_inv[OF assms(1)] assms(2) by (auto simp: sys_inv_def doctor_ok_def dest!: docs_ok_get)

lemma bookAll_spec:
  assumes "sys_inv s" "doctors s d = Some D" "\<forall>p\<in>set ps. patients s p \<noteq> None"
    "sizeQ D + int (length ps) \<le> capacity D"
  shows "\<exists>s' D'. bookAll ps d s = (map tokenId (bookedTokens (nextTokenId s) d ps), s') \<and>
           doctors s' d = Some D' \<and>
           queueContents D' = queueContents D @ bookedTokens (nextTokenId s) d ps \<and>
           sizeQ D' = sizeQ D + int (length ps) \<and> capacity D' = capacity D \<and> sys_inv s' \<and>
           (\<forall>p. patients s p \<noteq> None \<longrightarrow> patients s' p \<noteq> None)"
  using assms
proof (induction ps arbitrary: s D)
  case Nil
  then show ?case by simp
next
  case (Cons p ps)
  let ?tk = "\<lparr>tokenId = nextTokenId s, patientId = p, doctorId = d, slotId = - 1, tktype = ROUTINE\<rparr>"
  let ?D1 = "snd (Doctor_enqueueRoutine ?tk D)"
  let ?s1 = "snd (enqueueRoutine p d (- 1) s)"
  have qi: "queue_inv D" using Cons.prems(1,2) by (auto simp: sys_inv_def doctor_ok_def dest!: docs_ok_get)
  have lt: "sizeQ D < capacity D" using Cons.prems(4) by simp
  then have nf: "\<not> isFull D" by (simp add: isFull_def)
  have pk: "patients s p \<noteq> None" using Cons.prems(3) by simp
  have e: "fst (enqueueRoutine p d (- 1) s) = nextTokenId s" "doctors ?s1 d = Some ?D1"
    "nextTokenId ?s1 = nextTokenId s + 1" "patients ?s1 = bumpFreq p (patients s)"
    using enqueueRoutine_fifo[OF Cons.prems(2) pk] nf by simp_all
  have i1: "sys_inv ?s1" by (rule enqueueRoutine_inv[OF Cons.prems(1)])
  have c1: "queueContents ?D1 = queueContents D @ [?tk]" by (rule enqueue_contents[OF qi lt])
  have z1: "sizeQ ?D1 = sizeQ D + 1" using nf by (simp add: enqueue_size)
  have k1: "capacity ?D1 = capacity D" by (simp add: enqueue_fields)
  have p1: "\<forall>p\<in>set ps. patients ?s1 p \<noteq> None" using Cons.prems(3) e(4) by (simp add: bumpFreq_dom)
  have s1: "sizeQ ?D1 + int (length ps) \<le> capacity ?D1" using Cons.prems(4) z1 k1 by simp
  from Cons.IH[OF i1 e(2) p1 s1] obtain s' D' where
    r: "bookAll ps d ?s1 = (map tokenId (bookedTokens (nextTokenId ?s1) d ps), s')"
       "doctors s' d = Some D'"
       "queueContents D' = queueContents ?D1 @ bookedTokens (nextTokenId ?s1) d ps"
       "sizeQ D' = sizeQ ?D1 + int (length ps)" "capacity D' = capacity ?D1" "sys_inv s'"
       "\<forall>p. patients ?s1 p \<noteq> None \<longrightarrow> patients s' p \<noteq> None" by blast
  have "bookAll (p # ps) d s = (map tokenId (bookedTokens (nextTokenId s) d (p # ps)), s')"
    using r(1) e(1,3) by (simp add: case_prod_beta)
  moreover have "queueContents D' = queueContents D @ bookedTokens (nextTokenId s) d (p # ps)"
    using r(3) c1 e(3) by simp
  moreover have "\<forall>q. patients s q \<noteq> None \<longrightarrow> patients s' q \<noteq> None"
  proof (intro allI impI)
    fix q assume "patients s q \<noteq> None"
    then have "patients ?s1 q \<noteq> None" unfolding e(4) by (rule bumpFreq_dom)
    then show "patients s' q \<noteq> None" using r(7) by blast
  qed
  ultimately show ?case using r(2,4,5,6) z1 k1 by auto
qed

lemma bookedTokens_ids: "map tokenId (bookedTokens n d ps) = map (\<lambda>i. n + int i) [0..<length ps]"
proof (induction ps arbitrary: n)
  case Nil
  show ?case by simp
next
  case (Cons p ps)
  have "[0..<length (p # ps)] = 0 # map Suc [0..<length ps]"
    by (simp add: upt_conv_Cons map_Suc_upt del: upt_Suc)
  then show ?case using Cons[of "n + 1"] by (simp add: comp_def ac_simps)
qed

lemma fifo_bounds:
  assumes "reachable s" "doctors s d = Some D"
  shows "int (length (queueContents D)) = sizeQ D \<and> sizeQ D \<le> capacity D"
  using reachable_doctor(2)[OF assms] by (simp add: length_queueContents queue_inv_def)

lemma fifo_book_ok:
  assumes "reachable s" "doctors s d = Some D" "patients s p \<noteq> None" "sizeQ D < capacity D"
  shows "fst (enqueueRoutine p d (- 1) s) = nextTokenId s \<and>
         map_option queueContents (doctors (snd (enqueueRoutine p d (- 1) s)) d) =
           Some (queueContents D @ [\<lparr>tokenId = nextTokenId s, patientId = p, doctorId = d,
                                      slotId = - 1, tktype = ROUTINE\<rparr>])"
proof -
  have "\<not> isFull D" using assms(4) by (simp add: isFull_def)
  then show ?thesis
    using assms(4) enqueueRoutine_fifo[OF assms(2,3)]
      enqueue_contents[OF reachable_doctor(2)[OF assms(1,2)]] by simp
qed

lemma fifo_book_full:
  assumes "doctors s d = Some D" "patients s p \<noteq> None" "sizeQ D = capacity D"
  shows "fst (enqueueRoutine p d (- 1) s) = - 1 \<and>
         doctors (snd (enqueueRoutine p d (- 1) s)) = doctors s"
  using enqueueRoutine_fifo[OF assms(1,2)] assms(3) by (simp add: isFull_def)

lemma fifo_serve:
  assumes "reachable s" "doctors s d = Some D" "triageHeap s = []" "queueContents D \<noteq> []"
  shows "fst (serveNext d s) = Some (hd (queueContents D)) \<and>
         map_option queueContents (doctors (snd (serveNext d s)) d) = Some (tl (queueContents D))"
proof -
  have nz: "sizeQ D \<noteq> 0" using assms(4) by (auto simp: queueContents_def)
  from dequeue_ok[OF reachable_doctor(2)[OF assms(1,2)] nz] obtain D1 where
    d: "dequeueRoutine D = Some (hd (queueContents D), D1)"
    and c: "queueContents D1 = tl (queueContents D)" by blast
  show ?thesis using serveNext_fifo[OF assms(3,2) d] c by simp
qed

lemma fifo_fill:
  assumes "reachable s" "doctors s d = Some D" "sizeQ D = 0" "\<forall>q\<in>set ps. patients s q \<noteq> None"
    "int (length ps) = capacity D" "patients s p \<noteq> None"
  shows "fst (bookAll ps d s) = map (\<lambda>i. nextTokenId s + int i) [0..<length ps] \<and>
         map_option queueContents (doctors (snd (bookAll ps d s)) d) =
           Some (bookedTokens (nextTokenId s) d ps) \<and>
         fst (enqueueRoutine p d (- 1) (snd (bookAll ps d s))) = - 1 \<and>
         doctors (snd (enqueueRoutine p d (- 1) (snd (bookAll ps d s)))) =
           doctors (snd (bookAll ps d s))"
proof -
  have le: "sizeQ D + int (length ps) \<le> capacity D" using assms(3,5) by simp
  from bookAll_spec[OF reachable_inv[OF assms(1)] assms(2,4) le] obtain s' D' where
    r: "bookAll ps d s = (map tokenId (bookedTokens (nextTokenId s) d ps), s')"
       "doctors s' d = Some D'"
       "queueContents D' = queueContents D @ bookedTokens (nextTokenId s) d ps"
       "sizeQ D' = sizeQ D + int (length ps)" "capacity D' = capacity D"
       "\<forall>p. patients s p \<noteq> None \<longrightarrow> patients s' p \<noteq> None" by blast
  have full: "isFull D'" using r(4,5) assms(3,5) by (simp add: isFull_def)
  have pk: "patients s' p \<noteq> None" using r(6) assms(6) by blast
  show ?thesis
    using r(1,2,3) assms(3) full enqueueRoutine_fifo[OF r(2) pk]
    by (simp add: bookedTokens_ids queueContents_Nil)
qed

lemma demo_cap2_reachable: "reachable demo_cap2"
proof -
  have "run [AddDoctor 5 ''Dr_Sen'' ''Ortho'' 2,
      Upsert \<lparr>p_id = 1, p_name = ''Ananya'', age = 22, history = ''No_history'', freq = 0\<rparr>,
      Upsert \<lparr>p_id = 2, p_name = ''Lakshita'', age = 19, history = ''Allergy_pollen'', freq = 0\<rparr>]
      HospitalSystem_init \<noteq> None"
    by code_simp
  then have "run [AddDoctor 5 ''Dr_Sen'' ''Ortho'' 2,
      Upsert \<lparr>p_id = 1, p_name = ''Ananya'', age = 22, history = ''No_history'', freq = 0\<rparr>,
      Upsert \<lparr>p_id = 2, p_name = ''Lakshita'', age = 19, history = ''Allergy_pollen'', freq = 0\<rparr>]
      HospitalSystem_init = Some demo_cap2"
    by (auto simp: demo_cap2_def)
  from run_reachable[OF reachable_init this] show ?thesis .
qed

lemma demo_cap2_full_reachable: "reachable demo_cap2_full"
proof -
  have "run [AddDoctor 5 ''Dr_Sen'' ''Ortho'' 2,
      Upsert \<lparr>p_id = 1, p_name = ''Ananya'', age = 22, history = ''No_history'', freq = 0\<rparr>,
      Upsert \<lparr>p_id = 2, p_name = ''Lakshita'', age = 19, history = ''Allergy_pollen'', freq = 0\<rparr>,
      Book 1 5 (- 1), Book 2 5 (- 1)]
      HospitalSystem_init \<noteq> None"
    by code_simp
  then have "run [AddDoctor 5 ''Dr_Sen'' ''Ortho'' 2,
      Upsert \<lparr>p_id = 1, p_name = ''Ananya'', age = 22, history = ''No_history'', freq = 0\<rparr>,
      Upsert \<lparr>p_id = 2, p_name = ''Lakshita'', age = 19, history = ''Allergy_pollen'', freq = 0\<rparr>,
      Book 1 5 (- 1), Book 2 5 (- 1)]
      HospitalSystem_init = Some demo_cap2_full"
    by (auto simp: demo_cap2_full_def)
  from run_reachable[OF reachable_init this] show ?thesis .
qed

lemmas eval_defs =
  HospitalSystem_init_def addDoctor_def scheduleAddSlot_def scheduleCancelSlot_def
  patientUpsert_def enqueueRoutine_def serveNext_def triageInsert_def undoPop_def Let_def
  Doctor_new_def insertSlot_def SlotNode_new_def findSlot_def setSlot_def bumpFreq_def
  dequeueRoutine_def isEmpty_def isFull_def Doctor_enqueueRoutine_def Doctor_cancelSlot_def
  rem_c_def Action_new_def Token_default_def Patient_default_def

lemma demo_lost_dom: "dom (doctors demo_lost) = {7}"
  unfolding demo_lost_def by (simp add: eval_defs)

lemma serveNext_slot:
  assumes "triageHeap s = []" "doctors s d = Some D" "sizeQ D = 0" "firstTaken (slotHead D) = Some i"
  shows "serveNext d s =
     (Some \<lparr>tokenId = sl_tokenId (slotHead D ! i), patientId = - 1, doctorId = d,
             slotId = sl_slotId (slotHead D ! i), tktype = ROUTINE\<rparr>,
      s\<lparr>doctors := (doctors s)(d \<mapsto> setSlot i False (- 1) D),
        servedCount := servedCount s + 1, pendingCountTotal := pendingCountTotal s - 1,
        undoStack := (Action_new SERVE)\<lparr>token := \<lparr>tokenId = sl_tokenId (slotHead D ! i),
            patientId = - 1, doctorId = d, slotId = sl_slotId (slotHead D ! i), tktype = ROUTINE\<rparr>\<rparr>
          # undoStack s\<rparr>)"
  using assms by (simp add: serveNext_def Let_def dequeue_empty isEmpty_def)

lemma undo_serve_routine:
  assumes "undoStack s = act # rest" "atype act = SERVE" "tktype (token act) = ROUTINE"
    "doctors s (doctorId (token act)) = Some D"
  shows "undoPop s = Some (True,
           s\<lparr>undoStack := rest,
             doctors := (doctors s)(doctorId (token act) \<mapsto> snd (Doctor_enqueueRoutine (token act) D)),
             pendingCountTotal := pendingCountTotal s + 1, servedCount := servedCount s - 1\<rparr>)"
  using assms by (simp add: undoPop_def Let_def)

lemma setSlot_queue [simp]:
  "queue_inv (setSlot i b t D) = queue_inv D" "queueContents (setSlot i b t D) = queueContents D"
  "sizeQ (setSlot i b t D) = sizeQ D" "capacity (setSlot i b t D) = capacity D"
  by (simp_all add: setSlot_def queue_inv_def queueContents_def)

lemma demo_slot_reachable: "reachable demo_slot"
proof -
  have "run (seedSampleData @ [Book 2 1 101]) HospitalSystem_init \<noteq> None"
    by code_simp
  then have "run (seedSampleData @ [Book 2 1 101]) HospitalSystem_init = Some demo_slot"
    by (auto simp: demo_slot_def)
  from run_reachable[OF reachable_init this] show ?thesis .
qed

lemma undoPop_ledger: "undoPop s = Some (b, s') \<Longrightarrow> undoStack s' = tl (undoStack s)"
  by (auto simp: undoPop_def Let_def split: list.splits ActionType.splits option.splits if_splits
      prod.splits)

lemma cancelSlot_found:
  assumes "findSlot sid D = Some i"
  shows "fst (Doctor_cancelSlot sid D) = True" "fst (Doctor_cancelSlot sid (setSlot i b t D)) = True"
proof -
  show "fst (Doctor_cancelSlot sid D) = True"
    using assms by (simp add: Doctor_cancelSlot_def findSlot_def unlinkSlot_find)
  have "findSlotIn sid (slotHead (setSlot i b t D)) = Some i"
    using assms by (simp add: setSlot_def findSlot_def findSlotIn_update)
  then show "fst (Doctor_cancelSlot sid (setSlot i b t D)) = True"
    by (simp add: Doctor_cancelSlot_def unlinkSlot_find)
qed

lemma cancel_ledger:
  "scheduleCancelSlot d sid s = (b, s') \<Longrightarrow>
   map atype (undoStack s') =
     (if b \<and> slotOccupied d sid s then CANCEL # map atype (undoStack s) else map atype (undoStack s))"
  by (auto simp: scheduleCancelSlot_def slotOccupied_def Let_def case_prod_beta cancelSlot_found
      split: option.splits if_splits)

lemma book_ledger:
  assumes "1 \<le> nextTokenId s" "enqueueRoutine p d sid s = (t, s')"
  shows "map atype (undoStack s') =
     (if t = - 1 then map atype (undoStack s) else BOOK # map atype (undoStack s))"
  using assms by (auto simp: enqueueRoutine_def Let_def split: option.splits if_splits)

lemma serve_ledger:
  "serveNext d s = (t, s') \<Longrightarrow>
   map atype (undoStack s') =
     (if t = None then map atype (undoStack s) else SERVE # map atype (undoStack s))"
  by (auto simp: serveNext_def Let_def split: option.splits if_splits list.splits)

lemma triage_ledger:
  "triageInsert p sev s = (b, s') \<Longrightarrow>
   map atype (undoStack s') =
     (if b then TRIAGE_INSERT # map atype (undoStack s) else map atype (undoStack s))"
  by (auto simp: triageInsert_def Let_def split: if_splits)

lemma ledger_step:
  assumes "sys_inv s" "exec c s = Some (r, s')"
  shows "map atype (undoStack s') =
     (if c = Undo then tl (map atype (undoStack s))
      else (case recordedKind c s r of None \<Rightarrow> map atype (undoStack s)
            | Some k \<Rightarrow> k # map atype (undoStack s)))"
proof (cases c)
  case (AddDoctor i n sp cap)
  then show ?thesis using assms(2) by (auto simp: addDoctor_def split: if_splits)
next
  case (AddSlot d sid st en)
  then show ?thesis using assms(2) by (auto simp: scheduleAddSlot_def split: option.splits)
next
  case (CancelSlot d sid)
  then show ?thesis using assms(2) cancel_ledger[of d sid s] by (auto split: prod.splits)
next
  case (Upsert p)
  then show ?thesis using assms(2) by (auto simp: patientUpsert_def Let_def)
next
  case (Book p d sid)
  have "1 \<le> nextTokenId s" using assms(1) by (simp add: sys_inv_def)
  then show ?thesis using Book assms(2) book_ledger[of s p d sid] by (auto split: prod.splits)
next
  case (Serve d)
  then show ?thesis using assms(2) serve_ledger[of d s] by (auto split: prod.splits)
next
  case (Triage p sev)
  then show ?thesis using assms(2) triage_ledger[of p sev s] by (auto split: prod.splits)
next
  case Undo
  then show ?thesis using assms(2) by (auto simp: map_tl dest: undoPop_ledger)
qed

lemma ledger_amended_run:
  assumes "sys_inv s0" "run cs s0 = Some s"
  shows "ledger_amended cs s0 (map atype (undoStack s0)) = Some (map atype (undoStack s))"
  using assms
proof (induction cs arbitrary: s0)
  case Nil
  then show ?case by simp
next
  case (Cons c cs)
  then obtain r s1 where e: "exec c s0 = Some (r, s1)" and r: "run cs s1 = Some s"
    by (auto split: option.splits)
  have i1: "sys_inv s1" by (rule exec_inv[OF Cons.prems(1) e])
  from Cons.IH[OF i1 r] ledger_step[OF Cons.prems(1) e] e show ?case by simp
qed

lemma cancel_record:
  "scheduleCancelSlot d sid s = (b, s') \<Longrightarrow>
   undoStack s' =
     (case recordedAction (CancelSlot d sid) s (RBool b) of None \<Rightarrow> undoStack s
      | Some a \<Rightarrow> a # undoStack s)"
  by (auto simp: scheduleCancelSlot_def slotOccupied_def slotToken_def Let_def case_prod_beta
      cancelSlot_found split: option.splits if_splits)

lemma book_record:
  assumes "1 \<le> nextTokenId s" "enqueueRoutine p d sid s = (t, s')"
  shows "undoStack s' =
     (case recordedAction (Book p d sid) s (RTokenId t) of None \<Rightarrow> undoStack s
      | Some a \<Rightarrow> a # undoStack s)"
  using assms by (auto simp: enqueueRoutine_def Let_def split: option.splits if_splits)

lemma serve_record:
  "serveNext d s = (t, s') \<Longrightarrow>
   undoStack s' =
     (case recordedAction (Serve d) s (RServed t) of None \<Rightarrow> undoStack s
      | Some a \<Rightarrow> a # undoStack s)"
  by (auto simp: serveNext_def Let_def Action_new_def split: option.splits if_splits list.splits)

lemma triage_record:
  "triageInsert p sev s = (b, s') \<Longrightarrow>
   undoStack s' =
     (case recordedAction (Triage p sev) s (RBool b) of None \<Rightarrow> undoStack s
      | Some a \<Rightarrow> a # undoStack s)"
  by (auto simp: triageInsert_def Let_def split: if_splits)

lemma record_step:
  assumes "sys_inv s" "exec c s = Some (r, s')"
  shows "undoStack s' =
     (if c = Undo then tl (undoStack s)
      else (case recordedAction c s r of None \<Rightarrow> undoStack s | Some a \<Rightarrow> a # undoStack s))"
proof (cases c)
  case (AddDoctor i n sp cap)
  then show ?thesis using assms(2) by (auto simp: addDoctor_def split: if_splits)
next
  case (AddSlot d sid st en)
  then show ?thesis using assms(2) by (auto simp: scheduleAddSlot_def split: option.splits)
next
  case (CancelSlot d sid)
  then show ?thesis using assms(2) cancel_record[of d sid s] by (auto split: prod.splits)
next
  case (Upsert p)
  then show ?thesis using assms(2) by (auto simp: patientUpsert_def Let_def)
next
  case (Book p d sid)
  have "1 \<le> nextTokenId s" using assms(1) by (simp add: sys_inv_def)
  then show ?thesis using Book assms(2) book_record[of s p d sid] by (auto split: prod.splits)
next
  case (Serve d)
  then show ?thesis using assms(2) serve_record[of d s] by (auto split: prod.splits)
next
  case (Triage p sev)
  then show ?thesis using assms(2) triage_record[of p sev s] by (auto split: prod.splits)
next
  case Undo
  then show ?thesis using assms(2) by (auto dest: undoPop_ledger)
qed

lemma ledger_records_run:
  assumes "sys_inv s0" "run cs s0 = Some s"
  shows "ledger_records cs s0 (undoStack s0) = Some (undoStack s)"
  using assms
proof (induction cs arbitrary: s0)
  case Nil
  then show ?case by simp
next
  case (Cons c cs)
  then obtain r s1 where e: "exec c s0 = Some (r, s1)" and r: "run cs s1 = Some s"
    by (auto split: option.splits)
  have i1: "sys_inv s1" by (rule exec_inv[OF Cons.prems(1) e])
  from Cons.IH[OF i1 r] record_step[OF Cons.prems(1) e] e show ?case by simp
qed

lemma setSlot_restore:
  assumes "i < length (slotHead D)" "\<not> taken (slotHead D ! i)" "sl_tokenId (slotHead D ! i) = - 1"
  shows "setSlot i False (- 1) (setSlot i b t D) = D"
proof -
  have "(slotHead D ! i)\<lparr>taken := False, sl_tokenId := - 1\<rparr> = slotHead D ! i"
    using assms(2,3) by simp
  then show ?thesis using assms(1) by (simp add: setSlot_def list_update_same_conv)
qed

lemma findSlot_setSlot: "findSlot sid (setSlot i b t D) = findSlot sid D"
  by (simp add: findSlot_def setSlot_def findSlotIn_update)

lemma slot_after_set:
  "i < length (slotHead D) \<Longrightarrow>
   taken (slotHead (setSlot i b t D) ! i) = b \<and> sl_tokenId (slotHead (setSlot i b t D) ! i) = t"
  by (simp add: setSlot_def)

lemma enqueueRoutine_slot:
  assumes "doctors s d = Some D" "patients s p \<noteq> None" "sid \<noteq> - 1"
  shows "enqueueRoutine p d sid s =
     (case findSlot sid D of None \<Rightarrow> (- 1, s\<lparr>nextTokenId := nextTokenId s + 1\<rparr>)
      | Some i \<Rightarrow>
         if taken (slotHead D ! i) then (- 1, s\<lparr>nextTokenId := nextTokenId s + 1\<rparr>)
         else (nextTokenId s,
            s\<lparr>nextTokenId := nextTokenId s + 1,
              doctors := (doctors s)(d \<mapsto> setSlot i True (nextTokenId s) D),
              undoStack := (Action_new BOOK)\<lparr>token := \<lparr>tokenId = nextTokenId s, patientId = p,
                 doctorId = d, slotId = sid, tktype = ROUTINE\<rparr>, a_slotId := sid, a_doctorId := d\<rparr>
                 # undoStack s,
              pendingCountTotal := pendingCountTotal s + 1,
              patients := bumpFreq p (patients s)\<rparr>))"
  using assms by (auto simp: enqueueRoutine_def Let_def split: option.splits)

lemma enqueueRoutine_unknown:
  "doctors s d = None \<or> patients s p = None \<Longrightarrow> enqueueRoutine p d sid s = (- 1, s)"
  by (auto simp: enqueueRoutine_def split: option.splits)

lemma undo_after_book_slot:
  assumes "sys_inv s" "doctors s d = Some D" "patients s p \<noteq> None" "sid \<noteq> - 1"
    "findSlot sid D = Some i" "\<not> taken (slotHead D ! i)"
  shows "undoPop (snd (enqueueRoutine p d sid s)) =
           Some (True, s\<lparr>nextTokenId := nextTokenId s + 1, patients := bumpFreq p (patients s)\<rparr>)"
proof -
  let ?n = "nextTokenId s"
  let ?D1 = "setSlot i True ?n D"
  have i: "i < length (slotHead D)" using assms(5) by (auto simp: findSlot_def dest: findSlotIn_Some)
  have ok: "doctor_ok ?n d D" using assms(1,2) by (auto simp: sys_inv_def dest: docs_ok_get)
  have free: "sl_tokenId (slotHead D ! i) = - 1"
    using ok i assms(6) by (simp add: doctor_ok_def)
  have bk: "setSlot i False (- 1) ?D1 = D" by (rule setSlot_restore[OF i assms(6) free])
  have f1: "findSlot sid ?D1 = Some i" using assms(5) by (simp add: findSlot_setSlot)
  have t1: "taken (slotHead ?D1 ! i)" "sl_tokenId (slotHead ?D1 ! i) = ?n"
    using slot_after_set[OF i, of True ?n] by simp_all
  have m: "(doctors s)(d \<mapsto> D) = doctors s" using assms(2) by (rule map_upd_triv)
  show ?thesis
    using assms(4,5,6) f1 t1 bk m
    by (simp add: enqueueRoutine_slot[OF assms(2,3,4)] undoPop_def Let_def)
qed

lemma doctorView_same:
  "same_doctor D D' \<Longrightarrow> queueContents D' = queueContents D \<Longrightarrow> doctorView D' = doctorView D"
  by (simp add: doctorView_def same_doctor_def)

lemma undo_after_book_fifo:
  assumes "sys_inv s" "doctors s d = Some D" "patients s p \<noteq> None" "\<not> isFull D"
  shows "\<exists>D2. undoPop (snd (enqueueRoutine p d (- 1) s)) =
           Some (True, s\<lparr>nextTokenId := nextTokenId s + 1, patients := bumpFreq p (patients s),
                         doctors := (doctors s)(d \<mapsto> D2)\<rparr>) \<and>
         doctorView D2 = doctorView D"
proof -
  let ?n = "nextTokenId s"
  let ?tk = "\<lparr>tokenId = ?n, patientId = p, doctorId = d, slotId = - 1, tktype = ROUTINE\<rparr>"
  let ?D1 = "snd (Doctor_enqueueRoutine ?tk D)"
  let ?s1 = "snd (enqueueRoutine p d (- 1) s)"
  have ok: "doctor_ok ?n d D" using assms(1,2) by (auto simp: sys_inv_def dest: docs_ok_get)
  then have qi: "queue_inv D" by (simp add: doctor_ok_def)
  have lt: "sizeQ D < capacity D" using qi assms(4) by (auto simp: queue_inv_def isFull_def)
  have c1: "queueContents ?D1 = queueContents D @ [?tk]" by (rule enqueue_contents[OF qi lt])
  have ok1: "doctor_ok (?n + 1) d ?D1"
    by (intro doctor_ok_enqueue doctor_ok_mono[OF ok]) simp_all
  have s1: "?s1 = s\<lparr>nextTokenId := ?n + 1, doctors := (doctors s)(d \<mapsto> ?D1),
              undoStack := (Action_new BOOK)\<lparr>token := ?tk, a_doctorId := d\<rparr> # undoStack s,
              pendingCountTotal := pendingCountTotal s + 1, patients := bumpFreq p (patients s)\<rparr>"
    using enqueueRoutine_fifo[OF assms(2,3)] assms(4) by simp
  obtain D0 where dr: "drainRoutine ?n ?D1 False (pendingCountTotal s + 1) [] =
      Some (D0, drainTokens ?n (queueContents ?D1) False (pendingCountTotal s + 1) [])"
  proof -
    have "queue_inv ?D1" using ok1 by (simp add: doctor_ok_def)
    from drainRoutine_spec[OF this, of ?n False "pendingCountTotal s + 1" "[]"]
    show ?thesis using that by blast
  qed
  have fresh: "\<forall>e\<in>set (queueContents D). tokenId e \<noteq> ?n" using ok by (auto simp: doctor_ok_def)
  have dt: "drainTokens ?n (queueContents ?D1) False (pendingCountTotal s + 1) [] =
            (True, pendingCountTotal s, queueContents D)"
    unfolding c1 using drainTokens_first[OF fresh, of ?tk "[]" "pendingCountTotal s + 1" "[]"] by simp
  have dr': "drainRoutine ?n ?D1 False (pendingCountTotal s + 1) [] =
      Some (D0, True, pendingCountTotal s, queueContents D)"
    using dr dt by simp
  from undo_book_fifo[OF ok1 dr'] have
    sd: "same_doctor ?D1 (reenqueue D0 (queueContents D))"
    and qc: "queueContents (reenqueue D0 (queueContents D)) = queueContents D" by simp_all
  have "same_doctor D (reenqueue D0 (queueContents D))"
    using enqueue_same[of D ?tk] sd by (rule same_doctor_trans)
  then have v: "doctorView (reenqueue D0 (queueContents D)) = doctorView D"
    using qc by (rule doctorView_same)
  have "undoPop ?s1 = Some (True, s\<lparr>nextTokenId := ?n + 1, patients := bumpFreq p (patients s),
                         doctors := (doctors s)(d \<mapsto> reenqueue D0 (queueContents D))\<rparr>)"
    unfolding s1 using dr' by (simp add: undoPop_def Let_def)
  then show ?thesis using v by blast
qed

lemma insort_split: "\<exists>h1 h2. insort_key f x h = h1 @ x # h2 \<and> h = h1 @ h2 \<and> (\<forall>y\<in>set h1. f y < f x)"
proof (induction h)
  case Nil
  show ?case by simp
next
  case (Cons y h)
  show ?case
  proof (cases "f x \<le> f y")
    case True
    then have "insort_key f x (y # h) = [] @ x # (y # h)" by simp
    then show ?thesis by (metis append_Nil empty_iff list.set(1))
  next
    case False
    from Cons obtain h1 h2 where "insort_key f x h = h1 @ x # h2" "h = h1 @ h2" "\<forall>y\<in>set h1. f y < f x"
      by blast
    then have "insort_key f x (y # h) = (y # h1) @ x # h2 \<and> y # h = (y # h1) @ h2 \<and>
               (\<forall>z\<in>set (y # h1). f z < f x)"
      using False by auto
    then show ?thesis by blast
  qed
qed

lemma undo_after_triage:
  assumes "sys_inv s" "patients s p \<noteq> None"
  shows "undoPop (snd (triageInsert p sev s)) =
           Some (True, s\<lparr>nextTokenId := nextTokenId s + 1, patients := bumpFreq p (patients s)\<rparr>)"
proof -
  let ?n = "nextTokenId s"
  let ?tk = "\<lparr>tokenId = ?n, patientId = p, doctorId = - 1, slotId = - 1, tktype = EMERGENCY\<rparr>"
  let ?x = "\<lparr>severity = sev, tt_token = ?tk\<rparr>"
  let ?h = "triageHeap s"
  have hok: "heap_ok ?n ?h" and idd: "ids_distinct ?h (undoStack s)"
    using assms(1) by (simp_all add: sys_inv_def)
  from insort_split[of tt_key ?x ?h] obtain h1 h2 where
    sp: "heap_push ?x ?h = h1 @ ?x # h2" "?h = h1 @ h2" by (auto simp: heap_push_insort)
  have lt: "\<forall>e\<in>set ?h. tokenId (tt_token e) < ?n" using hok by (simp add: heap_ok_def)
  have fresh: "\<forall>e\<in>set h1. tokenId (tt_token e) \<noteq> ?n"
  proof
    fix e assume "e \<in> set h1"
    then have "e \<in> set ?h" using sp(2) by simp
    then have "tokenId (tt_token e) < ?n" using lt by blast
    then show "tokenId (tt_token e) \<noteq> ?n" by simp
  qed
  have dr: "drainHeap ?n (heap_push ?x ?h) False (pendingCountTotal s + 1) [] =
            (True, pendingCountTotal s, ?h)"
    unfolding sp(1) using drainHeap_first[OF fresh, of ?x h2 "pendingCountTotal s + 1" "[]"] sp(2)
    by simp
  have rb: "rebuildHeap ?h = ?h"
    using hok ids_keys[OF idd] by (intro rebuildHeap_id) (simp_all add: heap_ok_def)
  have s1: "snd (triageInsert p sev s) =
      s\<lparr>nextTokenId := ?n + 1, triageHeap := heap_push ?x ?h,
        undoStack := (Action_new TRIAGE_INSERT)\<lparr>token := ?tk, a_severity := sev\<rparr> # undoStack s,
        pendingCountTotal := pendingCountTotal s + 1, patients := bumpFreq p (patients s)\<rparr>"
    using assms(2) by (auto simp: triageInsert_def Let_def)
  show ?thesis
    unfolding s1 using dr rb by (simp add: undoPop_def Let_def)
qed

lemma undo_after_serve_triage:
  assumes "sys_inv s" "triageHeap s = tt # rest"
  shows "undoPop (snd (serveNext d s)) = Some (True, s\<lparr>patients := patients (snd (serveNext d s))\<rparr>)"
proof -
  have hok: "heap_ok (nextTokenId s) (tt # rest)" using assms by (simp add: sys_inv_def)
  then have ty: "tktype (tt_token tt) = EMERGENCY" by (simp add: heap_ok_def)
  then have tok: "(tt_token tt)\<lparr>tktype := EMERGENCY\<rparr> = tt_token tt" by simp
  have "\<forall>y\<in>set rest. tt_key tt \<le> tt_key y" using hok by (simp add: heap_ok_def)
  then have hp: "heap_push tt rest = tt # rest"
    by (simp add: heap_push_insort insort_is_Cons)
  have eta: "\<lparr>severity = severity tt, tt_token = tt_token tt\<rparr> = tt" by simp
  have push: "heap_push \<lparr>severity = severity tt, tt_token = tt_token tt\<rparr> rest = tt # rest"
    unfolding eta by (rule hp)
  show ?thesis
    using assms(2) push ty
    by (simp add: serveNext_triage[OF assms(2)] tok undoPop_def Let_def)
qed

lemma undo_after_serve_fifo:
  assumes "sys_inv s" "triageHeap s = []" "doctors s d = Some D" "queueContents D \<noteq> []"
  shows "\<exists>D2. undoPop (snd (serveNext d s)) = Some (True, s\<lparr>doctors := (doctors s)(d \<mapsto> D2)\<rparr>) \<and>
              same_doctor D D2 \<and>
              queueContents D2 = tl (queueContents D) @ [hd (queueContents D)]"
proof -
  let ?t = "hd (queueContents D)"
  have ok: "doctor_ok (nextTokenId s) d D" using assms(1,3) by (auto simp: sys_inv_def dest: docs_ok_get)
  then have qi: "queue_inv D" by (simp add: doctor_ok_def)
  have nz: "sizeQ D \<noteq> 0" using assms(4) by (auto simp: queueContents_def)
  from dequeue_ok[OF qi nz] obtain D1 where
    dq: "dequeueRoutine D = Some (?t, D1)" and q1: "queue_inv D1"
    and c1: "queueContents D1 = tl (queueContents D)" and z1: "sizeQ D1 = sizeQ D - 1"
    and sd: "same_doctor D D1" by blast
  from doctor_ok_dequeue[OF ok dq] have ty: "tktype ?t = ROUTINE" and di: "doctorId ?t = d" by simp_all
  let ?s1 = "snd (serveNext d s)"
  have s1: "?s1 = s\<lparr>doctors := (doctors s)(d \<mapsto> D1), servedCount := servedCount s + 1,
                 pendingCountTotal := pendingCountTotal s - 1,
                 undoStack := (Action_new SERVE)\<lparr>token := ?t\<rparr> # undoStack s\<rparr>"
    using serveNext_fifo[OF assms(2,3) dq] by simp
  have lt: "sizeQ D1 < capacity D1"
    using z1 sd qi by (simp add: same_doctor_def queue_inv_def)
  let ?D2 = "snd (Doctor_enqueueRoutine ?t D1)"
  have c2: "queueContents ?D2 = tl (queueContents D) @ [?t]"
    using enqueue_contents[OF q1 lt, of ?t] c1 by simp
  have sd2: "same_doctor D ?D2" using sd enqueue_same[of D1 ?t] by (rule same_doctor_trans)
  have top: "undoStack ?s1 = (Action_new SERVE)\<lparr>token := ?t\<rparr> # undoStack s"
    and doc: "doctors ?s1 (doctorId (token ((Action_new SERVE)\<lparr>token := ?t\<rparr>))) = Some D1"
    unfolding s1 using di by simp_all
  from undo_serve_routine[OF top _ _ doc]
  have "undoPop ?s1 = Some (True, s\<lparr>doctors := (doctors s)(d \<mapsto> ?D2)\<rparr>)"
    unfolding s1 using ty di by simp
  then show ?thesis using sd2 c2 by blast
qed

lemma undo_after_serve_slot:
  assumes "triageHeap s = []" "doctors s d = Some D" "sizeQ D = 0" "firstTaken (slotHead D) = Some i"
  shows "\<exists>s2. undoPop (snd (serveNext d s)) = Some (True, s2) \<and>
              pendingCountTotal s2 = pendingCountTotal s \<and> servedCount s2 = servedCount s \<and>
              triageHeap s2 = triageHeap s \<and> undoStack s2 = undoStack s \<and> patients s2 = patients s"
proof -
  let ?served = "\<lparr>tokenId = sl_tokenId (slotHead D ! i), patientId = - 1, doctorId = d,
                      slotId = sl_slotId (slotHead D ! i), tktype = ROUTINE\<rparr>"
  let ?s1 = "snd (serveNext d s)"
  note sv = serveNext_slot[OF assms]
  have top: "undoStack ?s1 = (Action_new SERVE)\<lparr>token := ?served\<rparr> # undoStack s"
    and doc: "doctors ?s1 (doctorId (token ((Action_new SERVE)\<lparr>token := ?served\<rparr>))) =
              Some (setSlot i False (- 1) D)"
    using sv by simp_all
  from undo_serve_routine[OF top _ _ doc] show ?thesis using sv by simp
qed

lemma undo_after_upsert: "undoPop (patientUpsert q s) = Some (True, s)"
proof (cases "patients s (p_id q)")
  case None
  then have "(patients s)(p_id q := None) = patients s" by auto
  then show ?thesis using None by (simp add: patientUpsert_def undoPop_def Let_def)
next
  case (Some old)
  then have "(patients s)(p_id q \<mapsto> old) = patients s" by (rule map_upd_triv)
  then show ?thesis using Some by (simp add: patientUpsert_def undoPop_def Let_def)
qed

lemma same_schedules_refl: "same_schedules ds ds"
  by (simp add: same_schedules_def)

lemma same_schedules_upd:
  "ds d = Some D \<Longrightarrow> doctorView D2 = doctorView D \<Longrightarrow> same_schedules ds (ds(d \<mapsto> D2))"
  by (simp add: same_schedules_def)

lemma serveNext_empty_cases:
  assumes "sys_inv s" "triageHeap s = []" "fst (serveNext d s) \<noteq> None"
  obtains D where "doctors s d = Some D" "queueContents D \<noteq> []"
  | D i where "doctors s d = Some D" "queueContents D = []" "sizeQ D = 0" "firstTaken (slotHead D) = Some i"
proof (cases "doctors s d")
  case None
  then show ?thesis using assms by (simp add: serveNext_def)
next
  case (Some D)
  have qi: "queue_inv D" using assms(1) Some by (auto simp: sys_inv_def doctor_ok_def dest!: docs_ok_get)
  show ?thesis
  proof (cases "sizeQ D = 0")
    case True
    then have "dequeueRoutine D = None" by (simp add: dequeue_empty isEmpty_def)
    then obtain i where "firstTaken (slotHead D) = Some i"
      using assms(2,3) Some by (auto simp: serveNext_def split: option.splits)
    then show ?thesis using that(2)[OF Some] True by (simp add: queueContents_Nil)
  next
    case False
    then show ?thesis using that(1)[OF Some] queueContents_nonempty[OF qi] by simp
  qed
qed

lemma undo_book_restores:
  assumes "sys_inv s" "fst (enqueueRoutine p d sid s) \<noteq> - 1"
  shows "\<exists>s2 q. undoPop (snd (enqueueRoutine p d sid s)) = Some (True, s2) \<and> restored s s2 \<and>
           patients s p = Some q \<and> patients s2 = (patients s)(p \<mapsto> q\<lparr>freq := freq q + 1\<rparr>)"
proof -
  obtain D where D: "doctors s d = Some D"
    using assms(2) enqueueRoutine_unknown[of s d p sid] by (cases "doctors s d") auto
  obtain q where q: "patients s p = Some q"
    using assms(2) enqueueRoutine_unknown[of s d p sid] by (cases "patients s p") auto
  then have pk: "patients s p \<noteq> None" by simp
  have bf: "bumpFreq p (patients s) = (patients s)(p \<mapsto> q\<lparr>freq := freq q + 1\<rparr>)"
    using q by (simp add: bumpFreq_def)
  show ?thesis
  proof (cases "sid = - 1")
    case True
    have nf: "\<not> isFull D" using assms(2) enqueueRoutine_fifo[OF D pk] True by (auto split: if_splits)
    from undo_after_book_fifo[OF assms(1) D pk nf] obtain D2 where
      u: "undoPop (snd (enqueueRoutine p d (- 1) s)) =
           Some (True, s\<lparr>nextTokenId := nextTokenId s + 1, patients := bumpFreq p (patients s),
                         doctors := (doctors s)(d \<mapsto> D2)\<rparr>)"
      and v: "doctorView D2 = doctorView D" by blast
    have "restored s (s\<lparr>nextTokenId := nextTokenId s + 1, patients := bumpFreq p (patients s),
                         doctors := (doctors s)(d \<mapsto> D2)\<rparr>)"
      using same_schedules_upd[of "doctors s" d D D2] D v by (simp add: restored_def)
    then show ?thesis using u True q bf by simp
  next
    case False
    obtain i where i: "findSlot sid D = Some i" and nt: "\<not> taken (slotHead D ! i)"
      using assms(2) enqueueRoutine_slot[OF D pk False] by (auto split: option.splits if_splits)
    have "restored s (s\<lparr>nextTokenId := nextTokenId s + 1, patients := bumpFreq p (patients s)\<rparr>)"
      by (simp add: restored_def same_schedules_refl)
    then show ?thesis using undo_after_book_slot[OF assms(1) D pk False i nt] q bf by simp
  qed
qed

lemma undo_triage_restores:
  assumes "sys_inv s" "fst (triageInsert p sev s)"
  shows "\<exists>s2 q. undoPop (snd (triageInsert p sev s)) = Some (True, s2) \<and> restored s s2 \<and>
           patients s p = Some q \<and> patients s2 = (patients s)(p \<mapsto> q\<lparr>freq := freq q + 1\<rparr>)"
proof -
  obtain q where q: "patients s p = Some q"
    using assms(2) by (cases "patients s p") (auto simp: triageInsert_def)
  then have pk: "patients s p \<noteq> None" by simp
  have "restored s (s\<lparr>nextTokenId := nextTokenId s + 1, patients := bumpFreq p (patients s)\<rparr>)"
    by (simp add: restored_def same_schedules_refl)
  moreover have "bumpFreq p (patients s) = (patients s)(p \<mapsto> q\<lparr>freq := freq q + 1\<rparr>)"
    using q by (simp add: bumpFreq_def)
  ultimately show ?thesis using undo_after_triage[OF assms(1) pk] q by simp
qed

lemma undo_serve_triage_restores:
  assumes "sys_inv s" "triageHeap s \<noteq> []"
  shows "\<exists>s2. undoPop (snd (serveNext d s)) = Some (True, s2) \<and> restored s s2 \<and>
           patients s2 = patients (snd (serveNext d s))"
proof -
  obtain tt rest where h: "triageHeap s = tt # rest" using assms(2) by (cases "triageHeap s") auto
  have "restored s (s\<lparr>patients := patients (snd (serveNext d s))\<rparr>)"
    by (simp add: restored_def same_schedules_refl)
  then show ?thesis using undo_after_serve_triage[OF assms(1) h, of d] by simp
qed

lemma undo_serve_routine_restores:
  assumes "sys_inv s" "triageHeap s = []" "fst (serveNext d s) \<noteq> None"
  shows "\<exists>s2. undoPop (snd (serveNext d s)) = Some (True, s2) \<and>
          pendingCountTotal s2 = pendingCountTotal s \<and> servedCount s2 = servedCount s \<and>
          triageHeap s2 = triageHeap s \<and> undoStack s2 = undoStack s \<and> patients s2 = patients s \<and>
          (\<forall>D. doctors s d = Some D \<and> queueContents D \<noteq> [] \<longrightarrow>
             (\<exists>D2. doctors s2 = (doctors s)(d \<mapsto> D2) \<and> same_doctor D D2 \<and>
                   queueContents D2 = tl (queueContents D) @ [hd (queueContents D)]))"
  using assms
proof (cases rule: serveNext_empty_cases)
  case (1 D)
  from undo_after_serve_fifo[OF assms(1,2) 1] obtain D2 where
    "undoPop (snd (serveNext d s)) = Some (True, s\<lparr>doctors := (doctors s)(d \<mapsto> D2)\<rparr>)"
    "same_doctor D D2" "queueContents D2 = tl (queueContents D) @ [hd (queueContents D)]" by blast
  then show ?thesis using 1 by auto
next
  case (2 D i)
  from undo_after_serve_slot[OF assms(2) 2(1,3,4)] show ?thesis using 2(1,2) by auto
qed

lemma addDoctor_fail: "addDoctor i n sp cap s = Some (False, s') \<Longrightarrow> s' = s"
  by (auto simp: addDoctor_def split: if_splits)

lemma scheduleAddSlot_fail: "\<not> fst (scheduleAddSlot d sid st en s) \<Longrightarrow> snd (scheduleAddSlot d sid st en s) = s"
  by (auto simp: scheduleAddSlot_def split: option.splits)

lemma scheduleCancelSlot_fail: "\<not> fst (scheduleCancelSlot d sid s) \<Longrightarrow> snd (scheduleCancelSlot d sid s) = s"
  by (auto simp: scheduleCancelSlot_def Let_def case_prod_beta cancelSlot_found split: option.splits)

lemma triageInsert_fail: "\<not> fst (triageInsert p sev s) \<Longrightarrow> snd (triageInsert p sev s) = s"
  by (auto simp: triageInsert_def Let_def split: if_splits)

lemma serveNext_fail: "fst (serveNext d s) = None \<Longrightarrow> snd (serveNext d s) = s"
  by (auto simp: serveNext_def Let_def split: list.splits option.splits)

lemma enqueueRoutine_fail:
  assumes "1 \<le> nextTokenId s" "fst (enqueueRoutine p d sid s) = - 1"
  shows "snd (enqueueRoutine p d sid s) =
           (if doctors s d = None \<or> patients s p = None then s
            else s\<lparr>nextTokenId := nextTokenId s + 1\<rparr>)"
  using assms by (auto simp: enqueueRoutine_def Let_def split: option.splits if_splits)

lemma enqueueRoutine_effect:
  assumes "sys_inv s" "fst (enqueueRoutine p d sid s) \<noteq> - 1"
  shows "\<exists>D q D'. doctors s d = Some D \<and> patients s p = Some q \<and>
           fst (enqueueRoutine p d sid s) = nextTokenId s \<and>
           snd (enqueueRoutine p d sid s) =
             s\<lparr>nextTokenId := nextTokenId s + 1, doctors := (doctors s)(d \<mapsto> D'),
               undoStack := (Action_new BOOK)
                   \<lparr>token := \<lparr>tokenId = nextTokenId s, patientId = p, doctorId = d, slotId = sid,
                               tktype = ROUTINE\<rparr>,
                    a_slotId := sid, a_doctorId := d\<rparr> # undoStack s,
               pendingCountTotal := pendingCountTotal s + 1,
               patients := (patients s)(p \<mapsto> q\<lparr>freq := freq q + 1\<rparr>)\<rparr> \<and>
           (if sid = - 1
            then same_doctor D D' \<and>
                 queueContents D' = queueContents D @
                   [\<lparr>tokenId = nextTokenId s, patientId = p, doctorId = d, slotId = sid,
                     tktype = ROUTINE\<rparr>]
            else \<exists>i. findSlot sid D = Some i \<and> \<not> taken (slotHead D ! i) \<and>
                   D' = D\<lparr>slotHead := (slotHead D)
                          [i := (slotHead D ! i)\<lparr>taken := True, sl_tokenId := nextTokenId s\<rparr>]\<rparr>)"
proof -
  obtain D where D: "doctors s d = Some D"
    using assms(2) enqueueRoutine_unknown[of s d p sid] by (cases "doctors s d") auto
  obtain q where q: "patients s p = Some q"
    using assms(2) enqueueRoutine_unknown[of s d p sid] by (cases "patients s p") auto
  then have pk: "patients s p \<noteq> None" by simp
  have bf: "bumpFreq p (patients s) = (patients s)(p \<mapsto> q\<lparr>freq := freq q + 1\<rparr>)"
    using q by (simp add: bumpFreq_def)
  have qi: "queue_inv D" using assms(1) D by (auto simp: sys_inv_def doctor_ok_def dest!: docs_ok_get)
  show ?thesis
  proof (cases "sid = - 1")
    case True
    let ?tk = "\<lparr>tokenId = nextTokenId s, patientId = p, doctorId = d, slotId = - 1, tktype = ROUTINE\<rparr>"
    have nf: "\<not> isFull D" using assms(2) enqueueRoutine_fifo[OF D pk] True by (auto split: if_splits)
    then have lt: "sizeQ D < capacity D" using qi by (auto simp: isFull_def queue_inv_def)
    have a: "(Action_new BOOK)\<lparr>token := ?tk, a_slotId := - 1, a_doctorId := d\<rparr> =
             (Action_new BOOK)\<lparr>token := ?tk, a_doctorId := d\<rparr>"
      by (simp add: Action_new_def)
    show ?thesis
      unfolding True
      using nf D q enqueue_contents[OF qi lt, of ?tk] enqueue_same[of D ?tk]
      by (intro exI[of _ D] exI[of _ q] exI[of _ "snd (Doctor_enqueueRoutine ?tk D)"])
         (simp add: enqueueRoutine_fifo[OF D pk] bf a)
  next
    case False
    obtain i where i: "findSlot sid D = Some i" and nt: "\<not> taken (slotHead D ! i)"
      using assms(2) enqueueRoutine_slot[OF D pk False] by (auto split: option.splits if_splits)
    show ?thesis
      using False i nt D q
      by (intro exI[of _ D] exI[of _ q] exI[of _ "setSlot i True (nextTokenId s) D"])
         (simp add: enqueueRoutine_slot[OF D pk False] bf setSlot_def)
  qed
qed

lemma triageInsert_effect:
  assumes "fst (triageInsert p sev s)"
  shows "\<exists>q. patients s p = Some q \<and>
           snd (triageInsert p sev s) =
             s\<lparr>nextTokenId := nextTokenId s + 1,
               triageHeap := insort_key tt_key
                   \<lparr>severity = sev,
                    tt_token = \<lparr>tokenId = nextTokenId s, patientId = p, doctorId = - 1,
                                slotId = - 1, tktype = EMERGENCY\<rparr>\<rparr> (triageHeap s),
               undoStack := (Action_new TRIAGE_INSERT)
                   \<lparr>token := \<lparr>tokenId = nextTokenId s, patientId = p, doctorId = - 1,
                               slotId = - 1, tktype = EMERGENCY\<rparr>,
                    a_severity := sev\<rparr> # undoStack s,
               pendingCountTotal := pendingCountTotal s + 1,
               patients := (patients s)(p \<mapsto> q\<lparr>freq := freq q + 1\<rparr>)\<rparr>"
proof -
  obtain q where q: "patients s p = Some q"
    using assms by (cases "patients s p") (auto simp: triageInsert_def)
  have bf: "bumpFreq p (patients s) = (patients s)(p \<mapsto> q\<lparr>freq := freq q + 1\<rparr>)"
    using q by (simp add: bumpFreq_def)
  show ?thesis using q by (simp add: triageInsert_def Let_def bf heap_push_insort)
qed

lemma serveNext_effect:
  assumes "sys_inv s" "fst (serveNext d s) \<noteq> None"
  shows "\<exists>t. fst (serveNext d s) = Some t \<and>
          (if triageHeap s \<noteq> []
           then t = (tt_token (hd (triageHeap s)))\<lparr>tktype := EMERGENCY\<rparr> \<and>
                snd (serveNext d s) =
                  s\<lparr>triageHeap := tl (triageHeap s), servedCount := servedCount s + 1,
                    pendingCountTotal := pendingCountTotal s - 1,
                    undoStack := (Action_new SERVE)
                        \<lparr>token := t, a_severity := severity (hd (triageHeap s))\<rparr> # undoStack s,
                    patients := (if patientId t \<noteq> - 1 then bumpFreq (patientId t) (patients s)
                                 else patients s)\<rparr>
           else \<exists>D D'. doctors s d = Some D \<and>
                  snd (serveNext d s) =
                    s\<lparr>doctors := (doctors s)(d \<mapsto> D'), servedCount := servedCount s + 1,
                      pendingCountTotal := pendingCountTotal s - 1,
                      undoStack := (Action_new SERVE)\<lparr>token := t\<rparr> # undoStack s\<rparr> \<and>
                  (if queueContents D \<noteq> []
                   then same_doctor D D' \<and> queueContents D = t # queueContents D'
                   else \<exists>i. firstTaken (slotHead D) = Some i \<and>
                          t = \<lparr>tokenId = sl_tokenId (slotHead D ! i), patientId = - 1, doctorId = d,
                               slotId = sl_slotId (slotHead D ! i), tktype = ROUTINE\<rparr> \<and>
                          D' = D\<lparr>slotHead := (slotHead D)
                                 [i := (slotHead D ! i)\<lparr>taken := False, sl_tokenId := - 1\<rparr>]\<rparr>))"
proof (cases "triageHeap s")
  case (Cons tt rest)
  show ?thesis using Cons by (simp add: serveNext_triage[OF Cons])
next
  case Nil
  from assms(1) Nil assms(2) show ?thesis
  proof (cases rule: serveNext_empty_cases)
    case (1 D)
    have qi: "queue_inv D" using assms(1) 1(1) by (auto simp: sys_inv_def doctor_ok_def dest!: docs_ok_get)
    have nz: "sizeQ D \<noteq> 0" using 1(2) by (auto simp: queueContents_Nil)
    from dequeue_ok[OF qi nz] obtain D1 where
      dq: "dequeueRoutine D = Some (hd (queueContents D), D1)"
      and c1: "queueContents D1 = tl (queueContents D)" and sd: "same_doctor D D1" by blast
    have "queueContents D = hd (queueContents D) # queueContents D1" using 1(2) c1 by simp
    then show ?thesis
      using Nil 1 sd
      by (intro exI[of _ "hd (queueContents D)"])
         (auto simp: serveNext_fifo[OF Nil 1(1) dq] intro!: exI[of _ D1])
  next
    case (2 D i)
    show ?thesis
      using Nil 2
      by (simp add: serveNext_slot[OF Nil 2(1,3,4)] setSlot_def)
  qed
qed

lemma patientUpsert_effect:
  "patientUpsert pt s =
     s\<lparr>undoStack := (Action_new REGISTER_PATIENT)
          \<lparr>patientSnapshot := (case patients s (p_id pt) of Some q \<Rightarrow> q | None \<Rightarrow> Patient_default),
           patientIdForUpsert := p_id pt,
           patientExistedBefore := (patients s (p_id pt) \<noteq> None)\<rparr> # undoStack s,
       patients := (patients s)(p_id pt \<mapsto> pt)\<rparr>"
  by (simp add: patientUpsert_def Let_def)

lemma scheduleCancelSlot_effect:
  assumes "fst (scheduleCancelSlot d sid s)"
  shows "\<exists>D i. doctors s d = Some D \<and> findSlot sid D = Some i \<and>
           snd (scheduleCancelSlot d sid s) =
             (if taken (slotHead D ! i)
              then s\<lparr>doctors := (doctors s)
                       (d \<mapsto> D\<lparr>slotHead := take i (slotHead D) @ drop (Suc i) (slotHead D)\<rparr>),
                     undoStack := (Action_new CANCEL)
                         \<lparr>token := \<lparr>tokenId = sl_tokenId (slotHead D ! i), patientId = - 1,
                                     doctorId = d, slotId = sid, tktype = ROUTINE\<rparr>,
                          a_slotId := sid, a_doctorId := d, slotPreviouslyTaken := True\<rparr>
                       # undoStack s,
                     pendingCountTotal := pendingCountTotal s - 1\<rparr>
              else s\<lparr>doctors := (doctors s)
                       (d \<mapsto> D\<lparr>slotHead := take i (slotHead D) @ drop (Suc i) (slotHead D)\<rparr>)\<rparr>)"
proof -
  obtain D where D: "doctors s d = Some D"
    using assms by (cases "doctors s d") (auto simp: scheduleCancelSlot_def)
  obtain i where i: "findSlot sid D = Some i"
    using assms D by (cases "findSlot sid D") (auto simp: scheduleCancelSlot_def)
  have f: "findSlotIn sid (slotHead D) = Some i" using i by (simp add: findSlot_def)
  have f2: "findSlotIn sid ((slotHead D)[i := (slotHead D ! i)\<lparr>taken := False, sl_tokenId := - 1\<rparr>]) = Some i"
    using f by (simp add: findSlotIn_update)
  show ?thesis
    using D i unlinkSlot_find[OF f] unlinkSlot_find[OF f2]
    by (simp add: scheduleCancelSlot_def Let_def Doctor_cancelSlot_def setSlot_def)
qed

lemma addDoctor_effect:
  assumes "addDoctor i n sp cap s = Some (True, s')"
  shows "doctors s i = None \<and>
         (\<exists>D. s' = s\<lparr>doctors := (doctors s)(i \<mapsto> D)\<rparr> \<and> doctorView D = (i, n, sp, cap, [], []))"
  using assms
  by (auto simp: addDoctor_def doctorView_def Doctor_new_def queueContents_def split: if_splits)

lemma scheduleAddSlot_effect:
  assumes "fst (scheduleAddSlot d sid st en s)"
  shows "\<exists>D. doctors s d = Some D \<and>
           snd (scheduleAddSlot d sid st en s) =
             s\<lparr>doctors := (doctors s)
                 (d \<mapsto> D\<lparr>slotHead := slotHead D @
                     [\<lparr>sl_slotId = sid, startTime = st, endTime = en, taken = False,
                       sl_tokenId = - 1\<rparr>]\<rparr>)\<rparr>"
  using assms
  by (auto simp: scheduleAddSlot_def insertSlot_def SlotNode_new_def split: option.splits)

lemma restored_refl: "restored s s"
  by (simp add: restored_def same_schedules_refl)

lemma undoPop_fail:
  assumes "sys_inv s" "undoPop s = Some (False, s')" "undoStack s = act # rest"
  shows "restored (s\<lparr>undoStack := rest\<rparr>) s' \<and> patients s' = patients s \<and>
         nextTokenId s' = nextTokenId s"
proof -
  let ?s0 = "s\<lparr>undoStack := rest\<rparr>"
  have base: "restored ?s0 ?s0 \<and> patients ?s0 = patients s \<and> nextTokenId ?s0 = nextTokenId s"
    by (simp add: restored_refl)
  show ?thesis
  proof (cases "atype act")
    case BOOK
    show ?thesis
    proof (cases "doctors s (a_doctorId act)")
      case None
      then have "s' = ?s0" using assms(2,3) BOOK by (simp add: undoPop_def)
      then show ?thesis using base by simp
    next
      case (Some D)
      note D = this
      show ?thesis
      proof (cases "slotId (token act) \<noteq> - 1")
        case True
        then have "s' = ?s0" using assms(2,3) BOOK D
          by (auto simp: undoPop_def Let_def split: option.splits if_splits)
        then show ?thesis using base by simp
      next
        case False
        then obtain D1 p tmp where
          dr: "drainRoutine (tokenId (token act)) D False (pendingCountTotal s) [] = Some (D1, False, p, tmp)"
          and s': "s' = ?s0\<lparr>doctors := (doctors s)(a_doctorId act \<mapsto> reenqueue D1 tmp),
                               pendingCountTotal := p\<rparr>"
          using assms(2,3) BOOK D by (auto simp: undoPop_def Let_def split: option.splits)
        have ok: "doctor_ok (nextTokenId s) (a_doctorId act) D"
          using assms(1) D by (auto simp: sys_inv_def dest: docs_ok_get)
        from undo_book_fifo[OF ok dr] have
          sd: "same_doctor D (reenqueue D1 tmp)"
          and dt: "(False, p, tmp) = drainTokens (tokenId (token act)) (queueContents D) False (pendingCountTotal s) []"
          and qc: "queueContents (reenqueue D1 tmp) = tmp" by simp_all
        from drainTokens_result[OF dt] have p: "p = pendingCountTotal s" and t: "tmp = queueContents D"
          by simp_all
        have "doctorView (reenqueue D1 tmp) = doctorView D"
          using sd qc t by (intro doctorView_same) simp_all
        then have "same_schedules (doctors s) ((doctors s)(a_doctorId act \<mapsto> reenqueue D1 tmp))"
          using same_schedules_upd[of "doctors s" "a_doctorId act" D "reenqueue D1 tmp"] D by simp
        then show ?thesis using s' p by (simp add: restored_def)
      qed
    qed
  next
    case CANCEL
    then have "s' = ?s0" using assms(2,3)
      by (auto simp: undoPop_def Let_def split: option.splits)
    then show ?thesis using base by simp
  next
    case SERVE
    then have "s' = ?s0" using assms(2,3)
      by (auto simp: undoPop_def Let_def split: option.splits if_splits)
    then show ?thesis using base by simp
  next
    case REGISTER_PATIENT
    then show ?thesis using assms(2,3) by (simp add: undoPop_def Let_def)
  next
    case TRIAGE_INSERT
    obtain rm p all where
      dr: "drainHeap (tokenId (token act)) (triageHeap s) False (pendingCountTotal s) [] = (rm, p, all)"
      by (metis prod_cases3)
    have rm: "rm = False" and s': "s' = ?s0\<lparr>triageHeap := rebuildHeap all, pendingCountTotal := p\<rparr>"
      using assms(2,3) TRIAGE_INSERT dr by (simp_all add: undoPop_def Let_def)
    have "heap_ok (nextTokenId s) (triageHeap s)" "ids_distinct (triageHeap s) (undoStack s)"
      using assms(1) by (simp_all add: sys_inv_def)
    from undo_triage_heap[OF this dr] rm have "p = pendingCountTotal s" "rebuildHeap all = triageHeap s"
      by simp_all
    then show ?thesis using s' by (simp add: restored_def same_schedules_refl)
  qed
qed

lemma undoPop_empty: "undoStack s = [] \<Longrightarrow> undoPop s = Some (False, s)"
  by (simp add: undoPop_def)

lemma undoPop_outcome:
  assumes "sys_inv s"
  shows "\<exists>b s'. undoPop s = Some (b, s') \<and> undoStack s' = tl (undoStack s) \<and>
           (b \<or> (undoStack s = [] \<and> s' = s) \<or>
              (restored (s\<lparr>undoStack := tl (undoStack s)\<rparr>) s' \<and> patients s' = patients s \<and>
               nextTokenId s' = nextTokenId s))"
proof -
  from undoPop_total[OF assms] obtain b s' where u: "undoPop s = Some (b, s')" by blast
  have l: "undoStack s' = tl (undoStack s)" by (rule undoPop_ledger[OF u])
  show ?thesis
  proof (cases "undoStack s")
    case Nil
    then show ?thesis using undoPop_empty[OF Nil] by (intro exI[of _ False] exI[of _ s]) simp
  next
    case (Cons act rest)
    show ?thesis
    proof (cases b)
      case True
      then show ?thesis using u l by blast
    next
      case False
      from undoPop_fail[OF assms _ Cons, of s'] u False
      have "restored (s\<lparr>undoStack := tl (undoStack s)\<rparr>) s' \<and> patients s' = patients s \<and>
            nextTokenId s' = nextTokenId s"
        using Cons by simp
      then show ?thesis using u l by blast
    qed
  qed
qed

lemma demo_cancelled_reachable: "reachable demo_cancelled"
proof -
  have "run (seedSampleData @ [Book 2 1 101, CancelSlot 1 101]) HospitalSystem_init \<noteq> None"
    by code_simp
  then have "run (seedSampleData @ [Book 2 1 101, CancelSlot 1 101]) HospitalSystem_init = Some demo_cancelled"
    by (auto simp: demo_cancelled_def)
  from run_reachable[OF reachable_init this] show ?thesis .
qed

section \<open>The stated properties\<close>

subsection \<open>C1\<close>

text \<open>
  C1. Whenever the triage collection is not empty, \<open>serveNext\<close> succeeds for every
  requested provider id, known or not, and serves the head of the collection, which is a
  least entry under \<^verbatim>\<open>operator>\<close>; it neither reads nor changes the doctors (the result
  is the same for any other provider id and any other schedules). A routine token is
  served, or a schedule changed, only when the triage collection is empty.
\<close>

theorem C1_emergency_precedence:
  "(triageHeap s \<noteq> [] \<longrightarrow>
      fst (serveNext did s) = Some ((tt_token (hd (triageHeap s)))\<lparr>tktype := EMERGENCY\<rparr>) \<and>
      doctors (snd (serveNext did s)) = doctors s \<and>
      triageHeap (snd (serveNext did s)) = tl (triageHeap s) \<and>
      serveNext did' (s\<lparr>doctors := ds\<rparr>) =
        (fst (serveNext did s), (snd (serveNext did s))\<lparr>doctors := ds\<rparr>) \<and>
      (sorted (map tt_key (triageHeap s)) \<longrightarrow>
         (\<forall>e\<in>set (triageHeap s). \<not> tt_greater (hd (triageHeap s)) e))) \<and>
   (((\<exists>t. fst (serveNext did s) = Some t \<and> tktype t = ROUTINE) \<or>
     doctors (snd (serveNext did s)) \<noteq> doctors s)
      \<longrightarrow> triageHeap s = [])"
proof (cases "triageHeap s")
  case Nil
  then show ?thesis by simp
next
  case (Cons tt rest)
  have "triageHeap (s\<lparr>doctors := ds\<rparr>) = tt # rest" using Cons by simp
  from serveNext_triage[OF this, of did'] serveNext_triage[OF Cons, of did]
  show ?thesis using Cons heap_hd_min[of "triageHeap s"] by simp
qed

theorem C1_emergency_precedence_witness:
  "triageHeap demo_triage \<noteq> [] \<and> sorted (map tt_key (triageHeap demo_triage)) \<and>
   fst (serveNext 2 demo_triage) =
     Some \<lparr>tokenId = 4, patientId = 2, doctorId = - 1, slotId = - 1, tktype = EMERGENCY\<rparr> \<and>
   doctors (snd (serveNext 2 demo_triage)) = doctors demo_triage \<and>
   serveNext 99 (demo_triage\<lparr>doctors := Map.empty\<rparr>) =
     (fst (serveNext 2 demo_triage), (snd (serveNext 2 demo_triage))\<lparr>doctors := Map.empty\<rparr>) \<and>
   map (\<lambda>e. (severity e, tokenId (tt_token e))) (triageHeap demo_triage) = [(2, 4), (2, 5), (5, 3)] \<and>
   list_all (\<lambda>e. \<not> tt_greater (hd (triageHeap demo_triage)) e) (triageHeap demo_triage) \<and>
   fst (serveNext 5 demo_cap2_full) =
     Some \<lparr>tokenId = 1, patientId = 1, doctorId = 5, slotId = - 1, tktype = ROUTINE\<rparr> \<and>
   triageHeap demo_cap2_full = []"
proof -
  have h1: "triageHeap demo_triage \<noteq> []" unfolding demo_triage_def by code_simp
  have h2: "sorted (map tt_key (triageHeap demo_triage))" unfolding demo_triage_def by code_simp
  have h3: "(tt_token (hd (triageHeap demo_triage)))\<lparr>tktype := EMERGENCY\<rparr> =
     \<lparr>tokenId = 4, patientId = 2, doctorId = - 1, slotId = - 1, tktype = EMERGENCY\<rparr>"
    unfolding demo_triage_def by code_simp
  have h4: "map (\<lambda>e. (severity e, tokenId (tt_token e))) (triageHeap demo_triage) = [(2, 4), (2, 5), (5, 3)]"
    unfolding demo_triage_def by code_simp
  have h5: "fst (serveNext 5 demo_cap2_full) =
     Some \<lparr>tokenId = 1, patientId = 1, doctorId = 5, slotId = - 1, tktype = ROUTINE\<rparr>"
    unfolding demo_cap2_full_def by code_simp
  have h6: "triageHeap demo_cap2_full = []"
    using C1_emergency_precedence[of demo_cap2_full 5 99 Map.empty] h5 by simp
  from C1_emergency_precedence[of demo_triage 2 99 Map.empty]
  show ?thesis using h1 h2 h3 h4 h5 h6 by (simp add: list_all_iff)
qed

subsection \<open>C2\<close>

text \<open>
  C2. The scenario on the sample data: patient 1 books slot 101 of provider 1 (pending
  total 1), the slot is cancelled (pending total 0), and the cancellation is undone. The
  cancellation has unlinked the slot, so the undo finds no slot 101: it reports failure,
  the pending total stays 0 and provider 1 has no slot 101.
\<close>

theorem C2_undo_of_cancel_fails:
  "map_option (drop 8) (results (seedSampleData @ [Book 1 1 101, CancelSlot 1 101, Undo]) HospitalSystem_init)
     = Some [RTokenId 1, RBool True, RBool False] \<and>
   map_option pendingCountTotal (run seedSampleData HospitalSystem_init) = Some 0 \<and>
   map_option pendingCountTotal (run (seedSampleData @ [Book 1 1 101]) HospitalSystem_init) = Some 1 \<and>
   map_option pendingCountTotal (run (seedSampleData @ [Book 1 1 101, CancelSlot 1 101])
     HospitalSystem_init) = Some 0 \<and>
   map_option pendingCountTotal (run (seedSampleData @ [Book 1 1 101, CancelSlot 1 101, Undo])
     HospitalSystem_init) = Some 0 \<and>
   map_option (\<lambda>s. map_option (findSlot 101) (doctors s 1))
     (run (seedSampleData @ [Book 1 1 101, CancelSlot 1 101, Undo]) HospitalSystem_init)
     = Some (Some None) \<and>
   map_option (\<lambda>s. map_option (map sl_slotId \<circ> slotHead) (doctors s 1))
     (run (seedSampleData @ [Book 1 1 101, CancelSlot 1 101, Undo]) HospitalSystem_init)
     = Some (Some [102]) \<and>
   map_option (\<lambda>s. map atype (undoStack s))
     (run (seedSampleData @ [Book 1 1 101, CancelSlot 1 101]) HospitalSystem_init)
     = Some [CANCEL, BOOK, REGISTER_PATIENT, REGISTER_PATIENT, REGISTER_PATIENT]"
  by code_simp

subsection \<open>C3\<close>

text \<open>
  C3, as amended. In every reachable state: after a successful booking (with or without
  slot), a successful triage insertion, a serve from the triage collection, or a patient
  upsert, the undo that follows succeeds and restores the pending and served counters,
  the schedules (slot sequences, queue contents and order), the triage collection and the
  ledger; after an upsert the whole state is the one before, and after the other three the
  registry differs only in the frequency counter of the patient, which is not reverted.
  After a serve from a provider's queue or slots the undo succeeds and restores the two
  counters, the triage collection, the ledger and the registry; a token served from the
  queue goes back to the rear of that queue, not to the front.
\<close>

theorem C3_undo_restores:
  assumes "reachable s"
  shows
   "(fst (enqueueRoutine p d sid s) \<noteq> - 1 \<longrightarrow>
       (\<exists>s2 q. undoPop (snd (enqueueRoutine p d sid s)) = Some (True, s2) \<and> restored s s2 \<and>
           patients s p = Some q \<and> patients s2 = (patients s)(p \<mapsto> q\<lparr>freq := freq q + 1\<rparr>))) \<and>
    (fst (triageInsert p sev s) \<longrightarrow>
       (\<exists>s2 q. undoPop (snd (triageInsert p sev s)) = Some (True, s2) \<and> restored s s2 \<and>
           patients s p = Some q \<and> patients s2 = (patients s)(p \<mapsto> q\<lparr>freq := freq q + 1\<rparr>))) \<and>
    (triageHeap s \<noteq> [] \<longrightarrow>
       (\<exists>s2. undoPop (snd (serveNext d s)) = Some (True, s2) \<and> restored s s2 \<and>
           patients s2 = patients (snd (serveNext d s)))) \<and>
    undoPop (patientUpsert pt s) = Some (True, s) \<and>
    (triageHeap s = [] \<and> fst (serveNext d s) \<noteq> None \<longrightarrow>
       (\<exists>s2. undoPop (snd (serveNext d s)) = Some (True, s2) \<and>
          pendingCountTotal s2 = pendingCountTotal s \<and> servedCount s2 = servedCount s \<and>
          triageHeap s2 = triageHeap s \<and> undoStack s2 = undoStack s \<and> patients s2 = patients s \<and>
          (\<forall>D. doctors s d = Some D \<and> queueContents D \<noteq> [] \<longrightarrow>
             (\<exists>D2. doctors s2 = (doctors s)(d \<mapsto> D2) \<and> same_doctor D D2 \<and>
                   queueContents D2 = tl (queueContents D) @ [hd (queueContents D)]))))"
proof -
  have inv: "sys_inv s" by (rule reachable_inv[OF assms])
  show ?thesis
    using undo_book_restores[OF inv, of p d sid] undo_triage_restores[OF inv, of p sev]
      undo_serve_triage_restores[OF inv, of d] undo_after_upsert[of pt s]
      undo_serve_routine_restores[OF inv, of d]
    by blast
qed

theorem C3_undo_restores_witness:
  "reachable demo_triage \<and> reachable demo_cap2_full \<and>
   fst (enqueueRoutine 3 1 102 demo_triage) = 6 \<and> fst (enqueueRoutine 3 1 (- 1) demo_triage) = 6 \<and>
   fst (triageInsert 3 1 demo_triage) \<and> triageHeap demo_triage \<noteq> [] \<and>
   triageHeap demo_cap2_full = [] \<and> fst (serveNext 5 demo_cap2_full) \<noteq> None \<and>
   (\<exists>s2 q. undoPop (snd (enqueueRoutine 3 1 102 demo_triage)) = Some (True, s2) \<and>
       restored demo_triage s2 \<and> patients demo_triage 3 = Some q \<and>
       patients s2 = (patients demo_triage)(3 \<mapsto> q\<lparr>freq := freq q + 1\<rparr>)) \<and>
   (\<exists>s2 q. undoPop (snd (enqueueRoutine 3 1 (- 1) demo_triage)) = Some (True, s2) \<and>
       restored demo_triage s2 \<and> patients demo_triage 3 = Some q \<and>
       patients s2 = (patients demo_triage)(3 \<mapsto> q\<lparr>freq := freq q + 1\<rparr>)) \<and>
   (\<exists>s2 q. undoPop (snd (triageInsert 3 1 demo_triage)) = Some (True, s2) \<and>
       restored demo_triage s2 \<and> patients demo_triage 3 = Some q \<and>
       patients s2 = (patients demo_triage)(3 \<mapsto> q\<lparr>freq := freq q + 1\<rparr>)) \<and>
   (\<exists>s2. undoPop (snd (serveNext 1 demo_triage)) = Some (True, s2) \<and> restored demo_triage s2 \<and>
       patients s2 = patients (snd (serveNext 1 demo_triage))) \<and>
   undoPop (patientUpsert \<lparr>p_id = 4, p_name = ''Noor'', age = 40, history = [], freq = 0\<rparr> demo_triage)
     = Some (True, demo_triage) \<and>
   (\<exists>s2. undoPop (snd (serveNext 5 demo_cap2_full)) = Some (True, s2) \<and>
       pendingCountTotal s2 = pendingCountTotal demo_cap2_full \<and>
       servedCount s2 = servedCount demo_cap2_full \<and>
       map_option queueContents (doctors s2 5) =
         Some [\<lparr>tokenId = 2, patientId = 2, doctorId = 5, slotId = - 1, tktype = ROUTINE\<rparr>,
               \<lparr>tokenId = 1, patientId = 1, doctorId = 5, slotId = - 1, tktype = ROUTINE\<rparr>])"
proof -
  have a: "fst (enqueueRoutine 3 1 102 demo_triage) = 6" "fst (enqueueRoutine 3 1 (- 1) demo_triage) = 6"
    "fst (triageInsert 3 1 demo_triage)" "triageHeap demo_triage \<noteq> []"
    unfolding demo_triage_def by code_simp+
  have b: "triageHeap demo_cap2_full = []" "fst (serveNext 5 demo_cap2_full) \<noteq> None"
    "doctors demo_cap2_full 5 = Some (the (doctors demo_cap2_full 5))"
    "queueContents (the (doctors demo_cap2_full 5)) =
       [\<lparr>tokenId = 1, patientId = 1, doctorId = 5, slotId = - 1, tktype = ROUTINE\<rparr>,
        \<lparr>tokenId = 2, patientId = 2, doctorId = 5, slotId = - 1, tktype = ROUTINE\<rparr>]"
    unfolding demo_cap2_full_def by code_simp+
  note t1 = C3_undo_restores[OF demo_triage_reachable, of 3 1 102 1
      "\<lparr>p_id = 4, p_name = ''Noor'', age = 40, history = [], freq = 0\<rparr>"]
  note t2 = C3_undo_restores[OF demo_triage_reachable, of 3 1 "- 1" 1
      "\<lparr>p_id = 4, p_name = ''Noor'', age = 40, history = [], freq = 0\<rparr>"]
  note t3 = C3_undo_restores[OF demo_cap2_full_reachable, of 3 5 "- 1" 1
      "\<lparr>p_id = 4, p_name = ''Noor'', age = 40, history = [], freq = 0\<rparr>"]
  have c1: "\<exists>s2 q. undoPop (snd (enqueueRoutine 3 1 102 demo_triage)) = Some (True, s2) \<and>
       restored demo_triage s2 \<and> patients demo_triage 3 = Some q \<and>
       patients s2 = (patients demo_triage)(3 \<mapsto> q\<lparr>freq := freq q + 1\<rparr>)"
    using t1 a by simp
  have c2: "\<exists>s2 q. undoPop (snd (enqueueRoutine 3 1 (- 1) demo_triage)) = Some (True, s2) \<and>
       restored demo_triage s2 \<and> patients demo_triage 3 = Some q \<and>
       patients s2 = (patients demo_triage)(3 \<mapsto> q\<lparr>freq := freq q + 1\<rparr>)"
    using t2 a by simp
  have c3: "\<exists>s2 q. undoPop (snd (triageInsert 3 1 demo_triage)) = Some (True, s2) \<and>
       restored demo_triage s2 \<and> patients demo_triage 3 = Some q \<and>
       patients s2 = (patients demo_triage)(3 \<mapsto> q\<lparr>freq := freq q + 1\<rparr>)"
    using t1 a by simp
  have c4: "\<exists>s2. undoPop (snd (serveNext 1 demo_triage)) = Some (True, s2) \<and> restored demo_triage s2 \<and>
       patients s2 = patients (snd (serveNext 1 demo_triage))"
    using t1 a by simp
  have c5: "undoPop (patientUpsert \<lparr>p_id = 4, p_name = ''Noor'', age = 40, history = [], freq = 0\<rparr>
       demo_triage) = Some (True, demo_triage)"
    using t1 by simp
  have c6: "\<exists>s2. undoPop (snd (serveNext 5 demo_cap2_full)) = Some (True, s2) \<and>
       pendingCountTotal s2 = pendingCountTotal demo_cap2_full \<and>
       servedCount s2 = servedCount demo_cap2_full \<and>
       map_option queueContents (doctors s2 5) =
         Some [\<lparr>tokenId = 2, patientId = 2, doctorId = 5, slotId = - 1, tktype = ROUTINE\<rparr>,
               \<lparr>tokenId = 1, patientId = 1, doctorId = 5, slotId = - 1, tktype = ROUTINE\<rparr>]"
  proof -
    from t3 b(1,2) obtain s2 where
      u: "undoPop (snd (serveNext 5 demo_cap2_full)) = Some (True, s2)"
        "pendingCountTotal s2 = pendingCountTotal demo_cap2_full"
        "servedCount s2 = servedCount demo_cap2_full"
      and q: "\<forall>D. doctors demo_cap2_full 5 = Some D \<and> queueContents D \<noteq> [] \<longrightarrow>
             (\<exists>D2. doctors s2 = (doctors demo_cap2_full)(5 \<mapsto> D2) \<and> same_doctor D D2 \<and>
                   queueContents D2 = tl (queueContents D) @ [hd (queueContents D)])"
      by blast
    from q b(3,4) obtain D2 where "doctors s2 = (doctors demo_cap2_full)(5 \<mapsto> D2)"
      "queueContents D2 = tl (queueContents (the (doctors demo_cap2_full 5))) @
         [hd (queueContents (the (doctors demo_cap2_full 5)))]"
      by (metis list.discI)
    then show ?thesis using u b(4) by simp
  qed
  show ?thesis
    using demo_triage_reachable demo_cap2_full_reachable a b(1,2) c1 c2 c3 c4 c5 c6 by blast
qed

text \<open>
  The claim as stated fails in three ways. With the tokens 1, 2 in the queue of provider
  5, a serve followed by an undo leaves the queue as 2, 1. With slot 101 of provider 1
  occupied and its queue empty, a serve followed by an undo leaves the slot free and the
  token in the queue. And after the cancellation of occupied slot 101 the undo reports
  failure: the pending counter stays 0 instead of 1 and the slot is gone.
\<close>

theorem C3_undo_counterexample:
  "map_option queueContents (doctors demo_cap2_full 5) =
     Some [\<lparr>tokenId = 1, patientId = 1, doctorId = 5, slotId = - 1, tktype = ROUTINE\<rparr>,
           \<lparr>tokenId = 2, patientId = 2, doctorId = 5, slotId = - 1, tktype = ROUTINE\<rparr>] \<and>
   fst (serveNext 5 demo_cap2_full) =
     Some \<lparr>tokenId = 1, patientId = 1, doctorId = 5, slotId = - 1, tktype = ROUTINE\<rparr> \<and>
   map_option (\<lambda>(b, s). (b, map_option queueContents (doctors s 5)))
     (undoPop (snd (serveNext 5 demo_cap2_full))) =
     Some (True, Some [\<lparr>tokenId = 2, patientId = 2, doctorId = 5, slotId = - 1, tktype = ROUTINE\<rparr>,
                       \<lparr>tokenId = 1, patientId = 1, doctorId = 5, slotId = - 1, tktype = ROUTINE\<rparr>]) \<and>
   map_option (\<lambda>D. (map (\<lambda>x. (sl_slotId x, taken x, sl_tokenId x)) (slotHead D), queueContents D))
     (doctors demo_slot 1) = Some ([(101, True, 1), (102, False, - 1)], []) \<and>
   fst (serveNext 1 demo_slot) =
     Some \<lparr>tokenId = 1, patientId = - 1, doctorId = 1, slotId = 101, tktype = ROUTINE\<rparr> \<and>
   map_option (\<lambda>(b, s). (b, map_option
       (\<lambda>D. (map (\<lambda>x. (sl_slotId x, taken x, sl_tokenId x)) (slotHead D), queueContents D)) (doctors s 1)))
     (undoPop (snd (serveNext 1 demo_slot))) =
     Some (True, Some ([(101, False, - 1), (102, False, - 1)],
        [\<lparr>tokenId = 1, patientId = - 1, doctorId = 1, slotId = 101, tktype = ROUTINE\<rparr>])) \<and>
   fst (scheduleCancelSlot 1 101 demo_slot) \<and> pendingCountTotal demo_slot = 1 \<and>
   map_option (\<lambda>(b, s). (b, pendingCountTotal s,
       map_option (\<lambda>D. map (\<lambda>x. (sl_slotId x, taken x, sl_tokenId x)) (slotHead D)) (doctors s 1)))
     (undoPop (snd (scheduleCancelSlot 1 101 demo_slot))) =
     Some (False, 0, Some [(102, False, - 1)])"
  unfolding demo_cap2_full_def demo_slot_def by code_simp

subsection \<open>C4\<close>

text \<open>
  C4. In every reachable state with pending emergency tokens, \<open>serveNext\<close> returns the
  pending emergency token of the lowest severity value, and among those of that severity
  the one with the lowest token id; that entry, and no other, leaves the collection.
\<close>

theorem C4_triage_order:
  assumes "reachable s" "triageHeap s \<noteq> []"
  shows "\<exists>e\<in>set (triageHeap s).
           fst (serveNext did s) = Some (tt_token e) \<and> tktype (tt_token e) = EMERGENCY \<and>
           triageHeap (snd (serveNext did s)) = remove1 e (triageHeap s) \<and>
           (\<forall>e'\<in>set (triageHeap s). e' \<noteq> e \<longrightarrow>
              severity e < severity e' \<or>
              (severity e = severity e' \<and> tokenId (tt_token e) < tokenId (tt_token e')))"
proof -
  obtain tt rest where h: "triageHeap s = tt # rest" using assms(2) by (cases "triageHeap s") auto
  have inv: "sys_inv s" by (rule reachable_inv[OF assms(1)])
  then have ty: "tktype (tt_token tt) = EMERGENCY" using h by (simp add: sys_inv_def heap_ok_def)
  then have tok: "(tt_token tt)\<lparr>tktype := EMERGENCY\<rparr> = tt_token tt" by simp
  have keys: "distinct (map tt_key (triageHeap s))" "sorted (map tt_key (triageHeap s))"
    using reachable_heap_keys[OF assms(1)] by simp_all
  have min: "tt_key tt < tt_key e'" if "e' \<in> set (triageHeap s)" "e' \<noteq> tt" for e'
  proof -
    have "e' \<in> set rest" using that h by simp
    then have "tt_key tt \<le> tt_key e'" "tt_key tt \<noteq> tt_key e'" using keys h by auto
    then show ?thesis by simp
  qed
  have "severity tt < severity e' \<or>
        (severity tt = severity e' \<and> tokenId (tt_token tt) < tokenId (tt_token e'))"
    if "e' \<in> set (triageHeap s)" "e' \<noteq> tt" for e'
    using min[OF that] by (auto simp: tt_key_def)
  then show ?thesis
    using h tok ty serveNext_triage[OF h, of did] by (intro bexI[of _ tt]) auto
qed

theorem C4_triage_order_witness:
  "reachable demo_triage \<and> triageHeap demo_triage \<noteq> [] \<and>
   map (\<lambda>e. (severity e, tokenId (tt_token e))) (triageHeap demo_triage) = [(2, 4), (2, 5), (5, 3)] \<and>
   (\<exists>e\<in>set (triageHeap demo_triage).
           fst (serveNext 1 demo_triage) = Some (tt_token e) \<and> tktype (tt_token e) = EMERGENCY \<and>
           triageHeap (snd (serveNext 1 demo_triage)) = remove1 e (triageHeap demo_triage) \<and>
           (\<forall>e'\<in>set (triageHeap demo_triage). e' \<noteq> e \<longrightarrow>
              severity e < severity e' \<or>
              (severity e = severity e' \<and> tokenId (tt_token e) < tokenId (tt_token e')))) \<and>
   map (\<lambda>t. map_option tokenId t)
     [fst (serveNext 1 demo_triage),
      fst (serveNext 1 (snd (serveNext 1 demo_triage))),
      fst (serveNext 1 (snd (serveNext 1 (snd (serveNext 1 demo_triage))))),
      fst (serveNext 1 (snd (serveNext 1 (snd (serveNext 1 (snd (serveNext 1 demo_triage)))))))]
    = [Some 4, Some 5, Some 3, Some 1]"
proof -
  have h1: "triageHeap demo_triage \<noteq> []" unfolding demo_triage_def by code_simp
  have h4: "map (\<lambda>e. (severity e, tokenId (tt_token e))) (triageHeap demo_triage) = [(2, 4), (2, 5), (5, 3)]"
    unfolding demo_triage_def by code_simp
  have h5: "map (\<lambda>t. map_option tokenId t)
     [fst (serveNext 1 demo_triage),
      fst (serveNext 1 (snd (serveNext 1 demo_triage))),
      fst (serveNext 1 (snd (serveNext 1 (snd (serveNext 1 demo_triage))))),
      fst (serveNext 1 (snd (serveNext 1 (snd (serveNext 1 (snd (serveNext 1 demo_triage)))))))]
    = [Some 4, Some 5, Some 3, Some 1]"
    unfolding demo_triage_def by code_simp
  from C4_triage_order[OF demo_triage_reachable h1, of 1]
  show ?thesis using demo_triage_reachable h1 h4 h5 by simp
qed

subsection \<open>C5\<close>

text \<open>
  C5. For a provider of a reachable state, with queue capacity C: the queue holds at most
  C tokens; a booking without slot of a registered patient succeeds while the queue holds
  fewer than C tokens and puts the new token behind the others; with C tokens in the queue
  it fails (result \<open>- 1\<close>) and leaves every schedule as it is; a serve (with no emergency
  pending) takes the token at the front. So tokens leave in the order they entered. From
  the empty queue, C bookings in a row all succeed, with consecutive token ids, and the
  next one fails.
\<close>

theorem C5_fifo:
  assumes "reachable s" "doctors s d = Some D"
  shows "(int (length (queueContents D)) = sizeQ D \<and> sizeQ D \<le> capacity D) \<and>
         (patients s p \<noteq> None \<and> sizeQ D < capacity D \<longrightarrow>
            fst (enqueueRoutine p d (- 1) s) = nextTokenId s \<and>
            map_option queueContents (doctors (snd (enqueueRoutine p d (- 1) s)) d) =
              Some (queueContents D @ [\<lparr>tokenId = nextTokenId s, patientId = p, doctorId = d,
                                         slotId = - 1, tktype = ROUTINE\<rparr>])) \<and>
         (patients s p \<noteq> None \<and> sizeQ D = capacity D \<longrightarrow>
            fst (enqueueRoutine p d (- 1) s) = - 1 \<and>
            doctors (snd (enqueueRoutine p d (- 1) s)) = doctors s) \<and>
         (triageHeap s = [] \<and> queueContents D \<noteq> [] \<longrightarrow>
            fst (serveNext d s) = Some (hd (queueContents D)) \<and>
            map_option queueContents (doctors (snd (serveNext d s)) d) =
              Some (tl (queueContents D))) \<and>
         (sizeQ D = 0 \<and> (\<forall>q\<in>set ps. patients s q \<noteq> None) \<and> int (length ps) = capacity D \<and>
          patients s p \<noteq> None \<longrightarrow>
            fst (bookAll ps d s) = map (\<lambda>i. nextTokenId s + int i) [0..<length ps] \<and>
            map_option queueContents (doctors (snd (bookAll ps d s)) d) =
              Some (bookedTokens (nextTokenId s) d ps) \<and>
            fst (enqueueRoutine p d (- 1) (snd (bookAll ps d s))) = - 1 \<and>
            doctors (snd (enqueueRoutine p d (- 1) (snd (bookAll ps d s)))) =
              doctors (snd (bookAll ps d s)))"
  using fifo_bounds[OF assms] fifo_book_ok[OF assms, of p] fifo_book_full[OF assms(2), of p]
    fifo_serve[OF assms] fifo_fill[OF assms, of ps p]
  by blast

theorem C5_fifo_witness:
  "reachable demo_cap2 \<and> doctors demo_cap2 5 = Some (the (doctors demo_cap2 5)) \<and>
   capacity (the (doctors demo_cap2 5)) = 2 \<and> sizeQ (the (doctors demo_cap2 5)) = 0 \<and>
   patients demo_cap2 1 \<noteq> None \<and> patients demo_cap2 2 \<noteq> None \<and> nextTokenId demo_cap2 = 1 \<and>
   fst (enqueueRoutine 1 5 (- 1) demo_cap2) = 1 \<and>
   fst (bookAll [1, 2] 5 demo_cap2) = [1, 2] \<and>
   map_option queueContents (doctors (snd (bookAll [1, 2] 5 demo_cap2)) 5) =
     Some [\<lparr>tokenId = 1, patientId = 1, doctorId = 5, slotId = - 1, tktype = ROUTINE\<rparr>,
           \<lparr>tokenId = 2, patientId = 2, doctorId = 5, slotId = - 1, tktype = ROUTINE\<rparr>] \<and>
   fst (enqueueRoutine 1 5 (- 1) (snd (bookAll [1, 2] 5 demo_cap2))) = - 1 \<and>
   reachable demo_cap2_full \<and> doctors demo_cap2_full 5 = Some (the (doctors demo_cap2_full 5)) \<and>
   sizeQ (the (doctors demo_cap2_full 5)) = capacity (the (doctors demo_cap2_full 5)) \<and>
   triageHeap demo_cap2_full = [] \<and>
   fst (enqueueRoutine 2 5 (- 1) demo_cap2_full) = - 1 \<and>
   doctors (snd (enqueueRoutine 2 5 (- 1) demo_cap2_full)) = doctors demo_cap2_full \<and>
   fst (serveNext 5 demo_cap2_full) =
     Some \<lparr>tokenId = 1, patientId = 1, doctorId = 5, slotId = - 1, tktype = ROUTINE\<rparr> \<and>
   map_option queueContents (doctors (snd (serveNext 5 demo_cap2_full)) 5) =
     Some [\<lparr>tokenId = 2, patientId = 2, doctorId = 5, slotId = - 1, tktype = ROUTINE\<rparr>]"
proof -
  have a1: "doctors demo_cap2 5 = Some (the (doctors demo_cap2 5))"
    unfolding demo_cap2_def by code_simp
  have a2: "capacity (the (doctors demo_cap2 5)) = 2" "sizeQ (the (doctors demo_cap2 5)) = 0"
    "nextTokenId demo_cap2 = 1" "queueContents (the (doctors demo_cap2 5)) = []"
    unfolding demo_cap2_def by code_simp+
  have a3: "\<forall>q\<in>set [1, 2]. patients demo_cap2 q \<noteq> None"
    unfolding demo_cap2_def by code_simp
  have b1: "doctors demo_cap2_full 5 = Some (the (doctors demo_cap2_full 5))"
    unfolding demo_cap2_full_def by code_simp
  have b2: "sizeQ (the (doctors demo_cap2_full 5)) = capacity (the (doctors demo_cap2_full 5))"
    "triageHeap demo_cap2_full = []" "patients demo_cap2_full 2 \<noteq> None"
    "queueContents (the (doctors demo_cap2_full 5)) =
       [\<lparr>tokenId = 1, patientId = 1, doctorId = 5, slotId = - 1, tktype = ROUTINE\<rparr>,
        \<lparr>tokenId = 2, patientId = 2, doctorId = 5, slotId = - 1, tktype = ROUTINE\<rparr>]"
    unfolding demo_cap2_full_def by code_simp+
  have c: "[0..<length [1::int, 2]] = [0, 1]" by (simp add: upt_conv_Cons)
  from C5_fifo[OF demo_cap2_reachable a1, of 1 "[1, 2]"]
       C5_fifo[OF demo_cap2_full_reachable b1, of 2 "[]"]
  show ?thesis
    using demo_cap2_reachable demo_cap2_full_reachable a1 a2 a3 b1 b2 c by simp
qed

subsection \<open>C6\<close>

text \<open>
  C6, as amended. In every reachable state: when \<open>addDoctor\<close>, \<open>scheduleAddSlot\<close>,
  \<open>scheduleCancelSlot\<close>, \<open>triageInsert\<close> or \<open>serveNext\<close> reports failure, the state is
  exactly the one before the call; when a booking reports failure (\<open>- 1\<close>), the state is
  the one before the call, except that a booking refused after the provider and patient
  checks (slot unknown or taken, queue full) has used up one token id; every undo returns,
  and an undo that reports failure on a non-empty ledger has removed the top record and
  has left the counters, the schedules, the triage collection, the registry and the token
  id generator as they were.

  When a call other than undo succeeds, the state after it is the state before it with
  exactly these changes.
  A booking returns the next token id and uses it up; the pending total and the frequency
  of the patient go up by one; one \<open>BOOK\<close> record holding the token, the slot and the
  provider is on top of the ledger; and the token is at the rear of the provider's queue
  (no slot given) or the slot found is marked taken with the token id.
  A triage insertion uses up the next token id; the pending total and the frequency of the
  patient go up by one; one \<open>TRIAGE_INSERT\<close> record holding the token and the severity is
  on top of the ledger; and the entry is inserted into the triage collection in the order
  of (severity, token id).
  A serve raises the served total and lowers the pending total by one and puts one
  \<open>SERVE\<close> record holding the served token on top of the ledger. With an emergency pending,
  the head of the triage collection is served and removed (the record holds its severity,
  the frequency of its patient goes up, no schedule changes); otherwise the head of the
  provider's queue is served and removed; otherwise the first taken slot is served and
  freed.
  A patient upsert stores the patient and puts one \<open>REGISTER_PATIENT\<close> record holding the
  patient id and the prior value on top of the ledger.
  A slot cancellation unlinks the slot found; when it was taken, the pending total goes
  down by one and one \<open>CANCEL\<close> record holding the provider, the slot and the id of the
  occupying token is on top of the ledger; when it was free, nothing else changes.
  \<open>addDoctor\<close> adds a provider with no slot and an empty queue, \<open>scheduleAddSlot\<close> appends a
  free slot; neither touches the ledger.
\<close>

theorem C6_failure_leaves_state:
  assumes "reachable s"
  shows
   "(addDoctor i n sp cap s = Some (False, s') \<longrightarrow> s' = s) \<and>
    (\<not> fst (scheduleAddSlot d sid st en s) \<longrightarrow> snd (scheduleAddSlot d sid st en s) = s) \<and>
    (\<not> fst (scheduleCancelSlot d sid s) \<longrightarrow> snd (scheduleCancelSlot d sid s) = s) \<and>
    (\<not> fst (triageInsert p sev s) \<longrightarrow> snd (triageInsert p sev s) = s) \<and>
    (fst (serveNext d s) = None \<longrightarrow> snd (serveNext d s) = s) \<and>
    (fst (enqueueRoutine p d sid s) = - 1 \<longrightarrow>
       snd (enqueueRoutine p d sid s) =
         (if doctors s d = None \<or> patients s p = None then s
          else s\<lparr>nextTokenId := nextTokenId s + 1\<rparr>)) \<and>
    (\<exists>b s2. undoPop s = Some (b, s2) \<and> undoStack s2 = tl (undoStack s) \<and>
       (b \<or> (undoStack s = [] \<and> s2 = s) \<or>
          (restored (s\<lparr>undoStack := tl (undoStack s)\<rparr>) s2 \<and> patients s2 = patients s \<and>
           nextTokenId s2 = nextTokenId s))) \<and>
    (fst (enqueueRoutine p d sid s) \<noteq> - 1 \<longrightarrow>
       (\<exists>D q D'. doctors s d = Some D \<and> patients s p = Some q \<and>
           fst (enqueueRoutine p d sid s) = nextTokenId s \<and>
           snd (enqueueRoutine p d sid s) =
             s\<lparr>nextTokenId := nextTokenId s + 1, doctors := (doctors s)(d \<mapsto> D'),
               undoStack := (Action_new BOOK)
                   \<lparr>token := \<lparr>tokenId = nextTokenId s, patientId = p, doctorId = d, slotId = sid,
                               tktype = ROUTINE\<rparr>,
                    a_slotId := sid, a_doctorId := d\<rparr> # undoStack s,
               pendingCountTotal := pendingCountTotal s + 1,
               patients := (patients s)(p \<mapsto> q\<lparr>freq := freq q + 1\<rparr>)\<rparr> \<and>
           (if sid = - 1
            then same_doctor D D' \<and>
                 queueContents D' = queueContents D @
                   [\<lparr>tokenId = nextTokenId s, patientId = p, doctorId = d, slotId = sid,
                     tktype = ROUTINE\<rparr>]
            else \<exists>i. findSlot sid D = Some i \<and> \<not> taken (slotHead D ! i) \<and>
                   D' = D\<lparr>slotHead := (slotHead D)
                          [i := (slotHead D ! i)\<lparr>taken := True, sl_tokenId := nextTokenId s\<rparr>]\<rparr>))) \<and>
    (fst (triageInsert p sev s) \<longrightarrow>
       (\<exists>q. patients s p = Some q \<and>
           snd (triageInsert p sev s) =
             s\<lparr>nextTokenId := nextTokenId s + 1,
               triageHeap := insort_key tt_key
                   \<lparr>severity = sev,
                    tt_token = \<lparr>tokenId = nextTokenId s, patientId = p, doctorId = - 1,
                                slotId = - 1, tktype = EMERGENCY\<rparr>\<rparr> (triageHeap s),
               undoStack := (Action_new TRIAGE_INSERT)
                   \<lparr>token := \<lparr>tokenId = nextTokenId s, patientId = p, doctorId = - 1,
                               slotId = - 1, tktype = EMERGENCY\<rparr>,
                    a_severity := sev\<rparr> # undoStack s,
               pendingCountTotal := pendingCountTotal s + 1,
               patients := (patients s)(p \<mapsto> q\<lparr>freq := freq q + 1\<rparr>)\<rparr>)) \<and>
    (fst (serveNext d s) \<noteq> None \<longrightarrow>
       (\<exists>t. fst (serveNext d s) = Some t \<and>
          (if triageHeap s \<noteq> []
           then t = (tt_token (hd (triageHeap s)))\<lparr>tktype := EMERGENCY\<rparr> \<and>
                snd (serveNext d s) =
                  s\<lparr>triageHeap := tl (triageHeap s), servedCount := servedCount s + 1,
                    pendingCountTotal := pendingCountTotal s - 1,
                    undoStack := (Action_new SERVE)
                        \<lparr>token := t, a_severity := severity (hd (triageHeap s))\<rparr> # undoStack s,
                    patients := (if patientId t \<noteq> - 1 then bumpFreq (patientId t) (patients s)
                                 else patients s)\<rparr>
           else \<exists>D D'. doctors s d = Some D \<and>
                  snd (serveNext d s) =
                    s\<lparr>doctors := (doctors s)(d \<mapsto> D'), servedCount := servedCount s + 1,
                      pendingCountTotal := pendingCountTotal s - 1,
                      undoStack := (Action_new SERVE)\<lparr>token := t\<rparr> # undoStack s\<rparr> \<and>
                  (if queueContents D \<noteq> []
                   then same_doctor D D' \<and> queueContents D = t # queueContents D'
                   else \<exists>i. firstTaken (slotHead D) = Some i \<and>
                          t = \<lparr>tokenId = sl_tokenId (slotHead D ! i), patientId = - 1, doctorId = d,
                               slotId = sl_slotId (slotHead D ! i), tktype = ROUTINE\<rparr> \<and>
                          D' = D\<lparr>slotHead := (slotHead D)
                                 [i := (slotHead D ! i)\<lparr>taken := False, sl_tokenId := - 1\<rparr>]\<rparr>)))) \<and>
    patientUpsert pt s =
      s\<lparr>undoStack := (Action_new REGISTER_PATIENT)
           \<lparr>patientSnapshot := (case patients s (p_id pt) of Some q \<Rightarrow> q | None \<Rightarrow> Patient_default),
            patientIdForUpsert := p_id pt,
            patientExistedBefore := (patients s (p_id pt) \<noteq> None)\<rparr> # undoStack s,
        patients := (patients s)(p_id pt \<mapsto> pt)\<rparr> \<and>
    (fst (scheduleCancelSlot d sid s) \<longrightarrow>
       (\<exists>D i. doctors s d = Some D \<and> findSlot sid D = Some i \<and>
           snd (scheduleCancelSlot d sid s) =
             (if taken (slotHead D ! i)
              then s\<lparr>doctors := (doctors s)
                       (d \<mapsto> D\<lparr>slotHead := take i (slotHead D) @ drop (Suc i) (slotHead D)\<rparr>),
                     undoStack := (Action_new CANCEL)
                         \<lparr>token := \<lparr>tokenId = sl_tokenId (slotHead D ! i), patientId = - 1,
                                     doctorId = d, slotId = sid, tktype = ROUTINE\<rparr>,
                          a_slotId := sid, a_doctorId := d, slotPreviouslyTaken := True\<rparr>
                       # undoStack s,
                     pendingCountTotal := pendingCountTotal s - 1\<rparr>
              else s\<lparr>doctors := (doctors s)
                       (d \<mapsto> D\<lparr>slotHead := take i (slotHead D) @ drop (Suc i) (slotHead D)\<rparr>)\<rparr>))) \<and>
    (addDoctor i n sp cap s = Some (True, s') \<longrightarrow>
       doctors s i = None \<and>
       (\<exists>D. s' = s\<lparr>doctors := (doctors s)(i \<mapsto> D)\<rparr> \<and> doctorView D = (i, n, sp, cap, [], []))) \<and>
    (fst (scheduleAddSlot d sid st en s) \<longrightarrow>
       (\<exists>D. doctors s d = Some D \<and>
           snd (scheduleAddSlot d sid st en s) =
             s\<lparr>doctors := (doctors s)
                 (d \<mapsto> D\<lparr>slotHead := slotHead D @
                     [\<lparr>sl_slotId = sid, startTime = st, endTime = en, taken = False,
                       sl_tokenId = - 1\<rparr>]\<rparr>)\<rparr>))"
proof -
  have inv: "sys_inv s" by (rule reachable_inv[OF assms])
  then have n1: "1 \<le> nextTokenId s" by (simp add: sys_inv_def)
  show ?thesis
    using addDoctor_fail[of i n sp cap s s'] scheduleAddSlot_fail[of d sid st en s]
      scheduleCancelSlot_fail[of d sid s] triageInsert_fail[of p sev s] serveNext_fail[of d s]
      enqueueRoutine_fail[OF n1, of p d sid] undoPop_outcome[OF inv]
      enqueueRoutine_effect[OF inv, of p d sid] triageInsert_effect[of p sev s]
      serveNext_effect[OF inv, of d] patientUpsert_effect[of pt s]
      scheduleCancelSlot_effect[of d sid s] addDoctor_effect[of i n sp cap s s']
      scheduleAddSlot_effect[of d sid st en s]
    by blast
qed

theorem C6_failure_leaves_state_witness:
  "reachable demo_cap2_full \<and> reachable demo_triage \<and> reachable demo_cancelled \<and>
   reachable demo_slot \<and> reachable demo_cap2 \<and>
   addDoctor 5 ''Dr_Sen'' ''Ortho'' 2 demo_cap2_full = Some (False, demo_cap2_full) \<and>
   \<not> fst (scheduleAddSlot 99 1 ''a'' ''b'' demo_cap2_full) \<and>
   snd (scheduleAddSlot 99 1 ''a'' ''b'' demo_cap2_full) = demo_cap2_full \<and>
   \<not> fst (scheduleCancelSlot 99 1 demo_cap2_full) \<and>
   snd (scheduleCancelSlot 99 1 demo_cap2_full) = demo_cap2_full \<and>
   \<not> fst (triageInsert 42 1 demo_cap2_full) \<and> snd (triageInsert 42 1 demo_cap2_full) = demo_cap2_full \<and>
   fst (serveNext 99 demo_cap2_full) = None \<and> snd (serveNext 99 demo_cap2_full) = demo_cap2_full \<and>
   fst (enqueueRoutine 42 99 (- 1) demo_cap2_full) = - 1 \<and>
   snd (enqueueRoutine 42 99 (- 1) demo_cap2_full) = demo_cap2_full \<and>
   fst (enqueueRoutine 1 5 (- 1) demo_cap2_full) = - 1 \<and>
   snd (enqueueRoutine 1 5 (- 1) demo_cap2_full) =
     demo_cap2_full\<lparr>nextTokenId := nextTokenId demo_cap2_full + 1\<rparr> \<and>
   (\<exists>s2. undoPop demo_cancelled = Some (False, s2) \<and>
      undoStack s2 = tl (undoStack demo_cancelled) \<and>
      restored (demo_cancelled\<lparr>undoStack := tl (undoStack demo_cancelled)\<rparr>) s2 \<and>
      patients s2 = patients demo_cancelled \<and> nextTokenId s2 = nextTokenId demo_cancelled) \<and>
   fst (enqueueRoutine 3 1 102 demo_triage) = 6 \<and>
   (\<exists>D q i. doctors demo_triage 1 = Some D \<and> patients demo_triage 3 = Some q \<and>
      findSlot 102 D = Some i \<and> \<not> taken (slotHead D ! i) \<and>
      snd (enqueueRoutine 3 1 102 demo_triage) =
        demo_triage\<lparr>nextTokenId := 7,
          doctors := (doctors demo_triage)
            (1 \<mapsto> D\<lparr>slotHead := (slotHead D)[i := (slotHead D ! i)\<lparr>taken := True, sl_tokenId := 6\<rparr>]\<rparr>),
          undoStack := (Action_new BOOK)
              \<lparr>token := \<lparr>tokenId = 6, patientId = 3, doctorId = 1, slotId = 102, tktype = ROUTINE\<rparr>,
               a_slotId := 102, a_doctorId := 1\<rparr> # undoStack demo_triage,
          pendingCountTotal := pendingCountTotal demo_triage + 1,
          patients := (patients demo_triage)(3 \<mapsto> q\<lparr>freq := freq q + 1\<rparr>)\<rparr>) \<and>
   map (\<lambda>x. (sl_slotId x, taken x, sl_tokenId x))
     (slotHead (the (doctors (snd (enqueueRoutine 3 1 102 demo_triage)) 1))) =
     [(101, True, 2), (102, True, 6)] \<and>
   fst (enqueueRoutine 1 5 (- 1) demo_cap2) = 1 \<and>
   (\<exists>D q D'. doctors demo_cap2 5 = Some D \<and> patients demo_cap2 1 = Some q \<and>
      snd (enqueueRoutine 1 5 (- 1) demo_cap2) =
        demo_cap2\<lparr>nextTokenId := 2, doctors := (doctors demo_cap2)(5 \<mapsto> D'),
          undoStack := (Action_new BOOK)
              \<lparr>token := \<lparr>tokenId = 1, patientId = 1, doctorId = 5, slotId = - 1, tktype = ROUTINE\<rparr>,
               a_slotId := - 1, a_doctorId := 5\<rparr> # undoStack demo_cap2,
          pendingCountTotal := pendingCountTotal demo_cap2 + 1,
          patients := (patients demo_cap2)(1 \<mapsto> q\<lparr>freq := freq q + 1\<rparr>)\<rparr> \<and>
      same_doctor D D' \<and>
      queueContents D' = queueContents D @
        [\<lparr>tokenId = 1, patientId = 1, doctorId = 5, slotId = - 1, tktype = ROUTINE\<rparr>]) \<and>
   fst (triageInsert 3 1 demo_triage) \<and>
   (\<exists>q. patients demo_triage 3 = Some q \<and>
      snd (triageInsert 3 1 demo_triage) =
        demo_triage\<lparr>nextTokenId := 7,
          triageHeap := insort_key tt_key
              \<lparr>severity = 1,
               tt_token = \<lparr>tokenId = 6, patientId = 3, doctorId = - 1, slotId = - 1,
                           tktype = EMERGENCY\<rparr>\<rparr> (triageHeap demo_triage),
          undoStack := (Action_new TRIAGE_INSERT)
              \<lparr>token := \<lparr>tokenId = 6, patientId = 3, doctorId = - 1, slotId = - 1,
                          tktype = EMERGENCY\<rparr>,
               a_severity := 1\<rparr> # undoStack demo_triage,
          pendingCountTotal := pendingCountTotal demo_triage + 1,
          patients := (patients demo_triage)(3 \<mapsto> q\<lparr>freq := freq q + 1\<rparr>)\<rparr>) \<and>
   map (\<lambda>e. (severity e, tokenId (tt_token e))) (triageHeap (snd (triageInsert 3 1 demo_triage))) =
     [(1, 6), (2, 4), (2, 5), (5, 3)] \<and>
   fst (serveNext 1 demo_triage) =
     Some \<lparr>tokenId = 4, patientId = 2, doctorId = - 1, slotId = - 1, tktype = EMERGENCY\<rparr> \<and>
   snd (serveNext 1 demo_triage) =
     demo_triage\<lparr>triageHeap := tl (triageHeap demo_triage),
       servedCount := servedCount demo_triage + 1,
       pendingCountTotal := pendingCountTotal demo_triage - 1,
       undoStack := (Action_new SERVE)
           \<lparr>token := \<lparr>tokenId = 4, patientId = 2, doctorId = - 1, slotId = - 1, tktype = EMERGENCY\<rparr>,
            a_severity := severity (hd (triageHeap demo_triage))\<rparr> # undoStack demo_triage,
       patients := bumpFreq 2 (patients demo_triage)\<rparr> \<and>
   fst (serveNext 5 demo_cap2_full) =
     Some \<lparr>tokenId = 1, patientId = 1, doctorId = 5, slotId = - 1, tktype = ROUTINE\<rparr> \<and>
   (\<exists>D D'. doctors demo_cap2_full 5 = Some D \<and>
      snd (serveNext 5 demo_cap2_full) =
        demo_cap2_full\<lparr>doctors := (doctors demo_cap2_full)(5 \<mapsto> D'),
          servedCount := servedCount demo_cap2_full + 1,
          pendingCountTotal := pendingCountTotal demo_cap2_full - 1,
          undoStack := (Action_new SERVE)
              \<lparr>token := \<lparr>tokenId = 1, patientId = 1, doctorId = 5, slotId = - 1, tktype = ROUTINE\<rparr>\<rparr>
            # undoStack demo_cap2_full\<rparr> \<and>
      same_doctor D D' \<and>
      queueContents D =
        \<lparr>tokenId = 1, patientId = 1, doctorId = 5, slotId = - 1, tktype = ROUTINE\<rparr> # queueContents D') \<and>
   fst (serveNext 1 demo_slot) =
     Some \<lparr>tokenId = 1, patientId = - 1, doctorId = 1, slotId = 101, tktype = ROUTINE\<rparr> \<and>
   (\<exists>D i. doctors demo_slot 1 = Some D \<and> firstTaken (slotHead D) = Some i \<and>
      snd (serveNext 1 demo_slot) =
        demo_slot\<lparr>doctors := (doctors demo_slot)
            (1 \<mapsto> D\<lparr>slotHead := (slotHead D)[i := (slotHead D ! i)\<lparr>taken := False, sl_tokenId := - 1\<rparr>]\<rparr>),
          servedCount := servedCount demo_slot + 1,
          pendingCountTotal := pendingCountTotal demo_slot - 1,
          undoStack := (Action_new SERVE)
              \<lparr>token := \<lparr>tokenId = 1, patientId = - 1, doctorId = 1, slotId = 101, tktype = ROUTINE\<rparr>\<rparr>
            # undoStack demo_slot\<rparr>) \<and>
   fst (scheduleCancelSlot 1 101 demo_slot) \<and>
   (\<exists>D i. doctors demo_slot 1 = Some D \<and> findSlot 101 D = Some i \<and> taken (slotHead D ! i) \<and>
      snd (scheduleCancelSlot 1 101 demo_slot) =
        demo_slot\<lparr>doctors := (doctors demo_slot)
            (1 \<mapsto> D\<lparr>slotHead := take i (slotHead D) @ drop (Suc i) (slotHead D)\<rparr>),
          undoStack := (Action_new CANCEL)
              \<lparr>token := \<lparr>tokenId = sl_tokenId (slotHead D ! i), patientId = - 1, doctorId = 1,
                          slotId = 101, tktype = ROUTINE\<rparr>,
               a_slotId := 101, a_doctorId := 1, slotPreviouslyTaken := True\<rparr> # undoStack demo_slot,
          pendingCountTotal := pendingCountTotal demo_slot - 1\<rparr>) \<and>
   map (\<lambda>x. (sl_slotId x, taken x, sl_tokenId x))
     (slotHead (the (doctors (snd (scheduleCancelSlot 1 101 demo_slot)) 1))) = [(102, False, - 1)] \<and>
   fst (scheduleAddSlot 5 501 ''a'' ''b'' demo_cap2) \<and>
   (\<exists>D. doctors demo_cap2 5 = Some D \<and>
      snd (scheduleAddSlot 5 501 ''a'' ''b'' demo_cap2) =
        demo_cap2\<lparr>doctors := (doctors demo_cap2)
            (5 \<mapsto> D\<lparr>slotHead := slotHead D @
                [\<lparr>sl_slotId = 501, startTime = ''a'', endTime = ''b'', taken = False,
                  sl_tokenId = - 1\<rparr>]\<rparr>)\<rparr>) \<and>
   (\<exists>s' D. addDoctor 6 ''Dr_Rao'' ''ENT'' 1 demo_cap2 = Some (True, s') \<and>
      doctors demo_cap2 6 = None \<and> s' = demo_cap2\<lparr>doctors := (doctors demo_cap2)(6 \<mapsto> D)\<rparr> \<and>
      doctorView D = (6, ''Dr_Rao'', ''ENT'', 1, [], []))"
proof -
  have a: "doctors demo_cap2_full 5 \<noteq> None" "doctors demo_cap2_full 99 = None"
    "patients demo_cap2_full 42 = None" "patients demo_cap2_full 1 \<noteq> None"
    "triageHeap demo_cap2_full = []" "fst (enqueueRoutine 1 5 (- 1) demo_cap2_full) = - 1"
    unfolding demo_cap2_full_def by code_simp+
  have f1: "addDoctor 5 ''Dr_Sen'' ''Ortho'' 2 demo_cap2_full = Some (False, demo_cap2_full)"
    using a(1) by (simp add: addDoctor_def)
  have f2: "\<not> fst (scheduleAddSlot 99 1 ''a'' ''b'' demo_cap2_full)"
    using a(2) by (simp add: scheduleAddSlot_def)
  have f3: "\<not> fst (scheduleCancelSlot 99 1 demo_cap2_full)"
    using a(2) by (simp add: scheduleCancelSlot_def)
  have f4: "\<not> fst (triageInsert 42 1 demo_cap2_full)"
    using a(3) by (simp add: triageInsert_def)
  have f5: "fst (serveNext 99 demo_cap2_full) = None"
    using a(2,5) by (simp add: serveNext_def)
  have f6: "fst (enqueueRoutine 42 99 (- 1) demo_cap2_full) = - 1"
    using a(2) by (simp add: enqueueRoutine_def)
  note tA = C6_failure_leaves_state[OF demo_cap2_full_reachable, of 5 "''Dr_Sen''" "''Ortho''" 2
      demo_cap2_full 99 1 "''a''" "''b''" 42 1 Patient_default]
  note tC = C6_failure_leaves_state[OF demo_cap2_full_reachable, of 5 "''Dr_Sen''" "''Ortho''" 2
      demo_cap2_full 5 "- 1" "''a''" "''b''" 1 1 Patient_default]
  have cA: "snd (scheduleAddSlot 99 1 ''a'' ''b'' demo_cap2_full) = demo_cap2_full"
    "snd (scheduleCancelSlot 99 1 demo_cap2_full) = demo_cap2_full"
    "snd (triageInsert 42 1 demo_cap2_full) = demo_cap2_full"
    "snd (serveNext 99 demo_cap2_full) = demo_cap2_full"
    using tA f2 f3 f4 f5 by blast+
  have cA6: "snd (enqueueRoutine 42 99 (- 1) demo_cap2_full) = demo_cap2_full"
    using a(2) by (simp add: enqueueRoutine_def)
  have cC: "snd (enqueueRoutine 1 5 (- 1) demo_cap2_full) =
     demo_cap2_full\<lparr>nextTokenId := nextTokenId demo_cap2_full + 1\<rparr>"
    using tC[THEN conjunct2, THEN conjunct2, THEN conjunct2, THEN conjunct2, THEN conjunct2,
        THEN conjunct1] a(1,4,6) by simp
  have b: "map_option fst (undoPop demo_cancelled) = Some False" "undoStack demo_cancelled \<noteq> []"
    unfolding demo_cancelled_def by code_simp+
  note tD = C6_failure_leaves_state[OF demo_cancelled_reachable, of 5 "''Dr_Sen''" "''Ortho''" 2
      demo_cancelled 99 1 "''a''" "''b''" 42 1 Patient_default]
  have cD: "\<exists>s2. undoPop demo_cancelled = Some (False, s2) \<and>
      undoStack s2 = tl (undoStack demo_cancelled) \<and>
      restored (demo_cancelled\<lparr>undoStack := tl (undoStack demo_cancelled)\<rparr>) s2 \<and>
      patients s2 = patients demo_cancelled \<and> nextTokenId s2 = nextTokenId demo_cancelled"
  proof -
    from tD obtain bb s2 where u: "undoPop demo_cancelled = Some (bb, s2)"
      "undoStack s2 = tl (undoStack demo_cancelled)"
      "bb \<or> (undoStack demo_cancelled = [] \<and> s2 = demo_cancelled) \<or>
          (restored (demo_cancelled\<lparr>undoStack := tl (undoStack demo_cancelled)\<rparr>) s2 \<and>
           patients s2 = patients demo_cancelled \<and> nextTokenId s2 = nextTokenId demo_cancelled)"
      by blast
    have nb: "bb = False" using u(1) b(1) by simp
    show ?thesis using u b(2) unfolding nb by (intro exI[of _ s2]) simp
  qed
  have c: "fst (enqueueRoutine 3 1 102 demo_triage) = 6" "fst (triageInsert 3 1 demo_triage)"
    "fst (serveNext 1 demo_triage) =
       Some \<lparr>tokenId = 4, patientId = 2, doctorId = - 1, slotId = - 1, tktype = EMERGENCY\<rparr>"
    "triageHeap demo_triage \<noteq> []" "nextTokenId demo_triage = 6"
    unfolding demo_triage_def by code_simp+
  have c': "map (\<lambda>x. (sl_slotId x, taken x, sl_tokenId x))
     (slotHead (the (doctors (snd (enqueueRoutine 3 1 102 demo_triage)) 1))) =
     [(101, True, 2), (102, True, 6)]"
    "map (\<lambda>e. (severity e, tokenId (tt_token e))) (triageHeap (snd (triageInsert 3 1 demo_triage))) =
     [(1, 6), (2, 4), (2, 5), (5, 3)]"
    unfolding demo_triage_def by code_simp+
  note tB = C6_failure_leaves_state[OF demo_triage_reachable, of 5 "''Dr_Sen''" "''Ortho''" 2
      demo_triage 1 102 "''a''" "''b''" 3 1 Patient_default]
  note tB' = tB[THEN conjunct2, THEN conjunct2, THEN conjunct2, THEN conjunct2, THEN conjunct2,
        THEN conjunct2, THEN conjunct2]
  have cB1: "\<exists>D q i. doctors demo_triage 1 = Some D \<and> patients demo_triage 3 = Some q \<and>
      findSlot 102 D = Some i \<and> \<not> taken (slotHead D ! i) \<and>
      snd (enqueueRoutine 3 1 102 demo_triage) =
        demo_triage\<lparr>nextTokenId := 7,
          doctors := (doctors demo_triage)
            (1 \<mapsto> D\<lparr>slotHead := (slotHead D)[i := (slotHead D ! i)\<lparr>taken := True, sl_tokenId := 6\<rparr>]\<rparr>),
          undoStack := (Action_new BOOK)
              \<lparr>token := \<lparr>tokenId = 6, patientId = 3, doctorId = 1, slotId = 102, tktype = ROUTINE\<rparr>,
               a_slotId := 102, a_doctorId := 1\<rparr> # undoStack demo_triage,
          pendingCountTotal := pendingCountTotal demo_triage + 1,
          patients := (patients demo_triage)(3 \<mapsto> q\<lparr>freq := freq q + 1\<rparr>)\<rparr>"
    using tB'[THEN conjunct1] c(1,5) by auto
  have cB2: "\<exists>q. patients demo_triage 3 = Some q \<and>
      snd (triageInsert 3 1 demo_triage) =
        demo_triage\<lparr>nextTokenId := 7,
          triageHeap := insort_key tt_key
              \<lparr>severity = 1,
               tt_token = \<lparr>tokenId = 6, patientId = 3, doctorId = - 1, slotId = - 1,
                           tktype = EMERGENCY\<rparr>\<rparr> (triageHeap demo_triage),
          undoStack := (Action_new TRIAGE_INSERT)
              \<lparr>token := \<lparr>tokenId = 6, patientId = 3, doctorId = - 1, slotId = - 1,
                          tktype = EMERGENCY\<rparr>,
               a_severity := 1\<rparr> # undoStack demo_triage,
          pendingCountTotal := pendingCountTotal demo_triage + 1,
          patients := (patients demo_triage)(3 \<mapsto> q\<lparr>freq := freq q + 1\<rparr>)\<rparr>"
    using tB'[THEN conjunct2, THEN conjunct1] c(2,5) by simp
  have cB3: "snd (serveNext 1 demo_triage) =
     demo_triage\<lparr>triageHeap := tl (triageHeap demo_triage),
       servedCount := servedCount demo_triage + 1,
       pendingCountTotal := pendingCountTotal demo_triage - 1,
       undoStack := (Action_new SERVE)
           \<lparr>token := \<lparr>tokenId = 4, patientId = 2, doctorId = - 1, slotId = - 1, tktype = EMERGENCY\<rparr>,
            a_severity := severity (hd (triageHeap demo_triage))\<rparr> # undoStack demo_triage,
       patients := bumpFreq 2 (patients demo_triage)\<rparr>"
    using tB'[THEN conjunct2, THEN conjunct2, THEN conjunct1] c(3,4) by auto
  have e: "fst (serveNext 5 demo_cap2_full) =
       Some \<lparr>tokenId = 1, patientId = 1, doctorId = 5, slotId = - 1, tktype = ROUTINE\<rparr>"
    "queueContents (the (doctors demo_cap2_full 5)) \<noteq> []"
    unfolding demo_cap2_full_def by code_simp+
  have cC2: "\<exists>D D'. doctors demo_cap2_full 5 = Some D \<and>
      snd (serveNext 5 demo_cap2_full) =
        demo_cap2_full\<lparr>doctors := (doctors demo_cap2_full)(5 \<mapsto> D'),
          servedCount := servedCount demo_cap2_full + 1,
          pendingCountTotal := pendingCountTotal demo_cap2_full - 1,
          undoStack := (Action_new SERVE)
              \<lparr>token := \<lparr>tokenId = 1, patientId = 1, doctorId = 5, slotId = - 1, tktype = ROUTINE\<rparr>\<rparr>
            # undoStack demo_cap2_full\<rparr> \<and>
      same_doctor D D' \<and>
      queueContents D =
        \<lparr>tokenId = 1, patientId = 1, doctorId = 5, slotId = - 1, tktype = ROUTINE\<rparr> # queueContents D'"
    using tC[THEN conjunct2, THEN conjunct2, THEN conjunct2, THEN conjunct2, THEN conjunct2,
        THEN conjunct2, THEN conjunct2, THEN conjunct2, THEN conjunct2, THEN conjunct1] e a(5)
    by auto
  have g: "fst (serveNext 1 demo_slot) =
       Some \<lparr>tokenId = 1, patientId = - 1, doctorId = 1, slotId = 101, tktype = ROUTINE\<rparr>"
    "queueContents (the (doctors demo_slot 1)) = []" "triageHeap demo_slot = []"
    "fst (scheduleCancelSlot 1 101 demo_slot)" "slotOccupied 1 101 demo_slot"
    unfolding demo_slot_def by code_simp+
  have g': "map (\<lambda>x. (sl_slotId x, taken x, sl_tokenId x))
     (slotHead (the (doctors (snd (scheduleCancelSlot 1 101 demo_slot)) 1))) = [(102, False, - 1)]"
    unfolding demo_slot_def by code_simp
  note tE = C6_failure_leaves_state[OF demo_slot_reachable, of 5 "''Dr_Sen''" "''Ortho''" 2
      demo_slot 1 101 "''a''" "''b''" 2 1 Patient_default]
  note tE' = tE[THEN conjunct2, THEN conjunct2, THEN conjunct2, THEN conjunct2, THEN conjunct2,
        THEN conjunct2, THEN conjunct2, THEN conjunct2, THEN conjunct2]
  have cE1: "\<exists>D i. doctors demo_slot 1 = Some D \<and> firstTaken (slotHead D) = Some i \<and>
      snd (serveNext 1 demo_slot) =
        demo_slot\<lparr>doctors := (doctors demo_slot)
            (1 \<mapsto> D\<lparr>slotHead := (slotHead D)[i := (slotHead D ! i)\<lparr>taken := False, sl_tokenId := - 1\<rparr>]\<rparr>),
          servedCount := servedCount demo_slot + 1,
          pendingCountTotal := pendingCountTotal demo_slot - 1,
          undoStack := (Action_new SERVE)
              \<lparr>token := \<lparr>tokenId = 1, patientId = - 1, doctorId = 1, slotId = 101, tktype = ROUTINE\<rparr>\<rparr>
            # undoStack demo_slot\<rparr>"
    using tE'[THEN conjunct1] g(1,2,3) by auto
  have cE2: "\<exists>D i. doctors demo_slot 1 = Some D \<and> findSlot 101 D = Some i \<and> taken (slotHead D ! i) \<and>
      snd (scheduleCancelSlot 1 101 demo_slot) =
        demo_slot\<lparr>doctors := (doctors demo_slot)
            (1 \<mapsto> D\<lparr>slotHead := take i (slotHead D) @ drop (Suc i) (slotHead D)\<rparr>),
          undoStack := (Action_new CANCEL)
              \<lparr>token := \<lparr>tokenId = sl_tokenId (slotHead D ! i), patientId = - 1, doctorId = 1,
                          slotId = 101, tktype = ROUTINE\<rparr>,
               a_slotId := 101, a_doctorId := 1, slotPreviouslyTaken := True\<rparr> # undoStack demo_slot,
          pendingCountTotal := pendingCountTotal demo_slot - 1\<rparr>"
    using tE'[THEN conjunct2, THEN conjunct2, THEN conjunct1] g(4,5)
    by (auto simp: slotOccupied_def)
  have h: "fst (enqueueRoutine 1 5 (- 1) demo_cap2) = 1" "nextTokenId demo_cap2 = 1"
    "fst (scheduleAddSlot 5 501 ''a'' ''b'' demo_cap2)" "doctors demo_cap2 6 = None"
    unfolding demo_cap2_def by code_simp+
  note tF = C6_failure_leaves_state[OF demo_cap2_reachable, of 6 "''Dr_Rao''" "''ENT''" 1
      "demo_cap2\<lparr>doctors := (doctors demo_cap2)(6 \<mapsto> Doctor_new 6 ''Dr_Rao'' ''ENT'' 1)\<rparr>"
      5 "- 1" "''a''" "''b''" 1 1 Patient_default]
  note tG = C6_failure_leaves_state[OF demo_cap2_reachable, of 6 "''Dr_Rao''" "''ENT''" 1
      "demo_cap2\<lparr>doctors := (doctors demo_cap2)(6 \<mapsto> Doctor_new 6 ''Dr_Rao'' ''ENT'' 1)\<rparr>"
      5 501 "''a''" "''b''" 1 1 Patient_default]
  note tF' = tF[THEN conjunct2, THEN conjunct2, THEN conjunct2, THEN conjunct2, THEN conjunct2,
        THEN conjunct2, THEN conjunct2]
  have cF1: "\<exists>D q D'. doctors demo_cap2 5 = Some D \<and> patients demo_cap2 1 = Some q \<and>
      snd (enqueueRoutine 1 5 (- 1) demo_cap2) =
        demo_cap2\<lparr>nextTokenId := 2, doctors := (doctors demo_cap2)(5 \<mapsto> D'),
          undoStack := (Action_new BOOK)
              \<lparr>token := \<lparr>tokenId = 1, patientId = 1, doctorId = 5, slotId = - 1, tktype = ROUTINE\<rparr>,
               a_slotId := - 1, a_doctorId := 5\<rparr> # undoStack demo_cap2,
          pendingCountTotal := pendingCountTotal demo_cap2 + 1,
          patients := (patients demo_cap2)(1 \<mapsto> q\<lparr>freq := freq q + 1\<rparr>)\<rparr> \<and>
      same_doctor D D' \<and>
      queueContents D' = queueContents D @
        [\<lparr>tokenId = 1, patientId = 1, doctorId = 5, slotId = - 1, tktype = ROUTINE\<rparr>]"
    using tF'[THEN conjunct1] h(1,2) by auto
  have cF2: "\<exists>D. doctors demo_cap2 5 = Some D \<and>
      snd (scheduleAddSlot 5 501 ''a'' ''b'' demo_cap2) =
        demo_cap2\<lparr>doctors := (doctors demo_cap2)
            (5 \<mapsto> D\<lparr>slotHead := slotHead D @
                [\<lparr>sl_slotId = 501, startTime = ''a'', endTime = ''b'', taken = False,
                  sl_tokenId = - 1\<rparr>]\<rparr>)\<rparr>"
    using tG[THEN conjunct2, THEN conjunct2, THEN conjunct2, THEN conjunct2, THEN conjunct2,
        THEN conjunct2, THEN conjunct2, THEN conjunct2, THEN conjunct2, THEN conjunct2,
        THEN conjunct2, THEN conjunct2, THEN conjunct2] h(3) by simp
  have ad: "addDoctor 6 ''Dr_Rao'' ''ENT'' 1 demo_cap2 =
     Some (True, demo_cap2\<lparr>doctors := (doctors demo_cap2)(6 \<mapsto> Doctor_new 6 ''Dr_Rao'' ''ENT'' 1)\<rparr>)"
    using h(4) by (simp add: addDoctor_def)
  have cF3: "\<exists>s' D. addDoctor 6 ''Dr_Rao'' ''ENT'' 1 demo_cap2 = Some (True, s') \<and>
      doctors demo_cap2 6 = None \<and> s' = demo_cap2\<lparr>doctors := (doctors demo_cap2)(6 \<mapsto> D)\<rparr> \<and>
      doctorView D = (6, ''Dr_Rao'', ''ENT'', 1, [], [])"
    using tF'[THEN conjunct2, THEN conjunct2, THEN conjunct2, THEN conjunct2, THEN conjunct2,
        THEN conjunct1] ad by blast
  show ?thesis
    using demo_cap2_full_reachable demo_triage_reachable demo_cancelled_reachable
      demo_slot_reachable demo_cap2_reachable
      f1 f2 f3 f4 f5 f6 cA cA6 a(6) cC cD c(1,2,3) c' cB1 cB2 cB3 e(1) cC2 g(1,4) g' cE1 cE2
      h(1,3) cF1 cF2 cF3
    by blast
qed

text \<open>
  The claim as stated fails in three ways. A booking refused for the full queue returns
  \<open>- 1\<close> and moves the token id generator from 3 to 4, so that the next successful
  booking returns 4 where it would have returned 3. An undo that reports failure has
  removed the top record of the ledger. And the cancellation of the free slot 102 succeeds
  and removes the slot without a ledger record.
\<close>

theorem C6_partial_application_counterexample:
  "fst (enqueueRoutine 1 5 (- 1) demo_cap2_full) = - 1 \<and>
   nextTokenId demo_cap2_full = 3 \<and>
   nextTokenId (snd (enqueueRoutine 1 5 (- 1) demo_cap2_full)) = 4 \<and>
   fst (enqueueRoutine 1 5 (- 1) (snd (serveNext 5 demo_cap2_full))) = 3 \<and>
   fst (enqueueRoutine 1 5 (- 1)
     (snd (serveNext 5 (snd (enqueueRoutine 1 5 (- 1) demo_cap2_full))))) = 4 \<and>
   map atype (undoStack demo_cancelled) =
     [CANCEL, BOOK, REGISTER_PATIENT, REGISTER_PATIENT, REGISTER_PATIENT] \<and>
   map_option (\<lambda>(b, s). (b, map atype (undoStack s))) (undoPop demo_cancelled) =
     Some (False, [BOOK, REGISTER_PATIENT, REGISTER_PATIENT, REGISTER_PATIENT]) \<and>
   fst (scheduleCancelSlot 1 102 demo_slot) \<and>
   undoStack (snd (scheduleCancelSlot 1 102 demo_slot)) = undoStack demo_slot \<and>
   map_option (map sl_slotId \<circ> slotHead) (doctors demo_slot 1) = Some [101, 102] \<and>
   map_option (map sl_slotId \<circ> slotHead) (doctors (snd (scheduleCancelSlot 1 102 demo_slot)) 1)
     = Some [101]"
  unfolding demo_cap2_full_def demo_cancelled_def demo_slot_def by code_simp

subsection \<open>C7\<close>

text \<open>
  C7. A state reached from the initial state in which the pending counter is 2 while the
  queues, the triage collection and the occupied slots together hold one token.
\<close>

theorem C7_pending_counter_diverges:
  "pendingCountTotal demo_lost = 2 \<and> structPending demo_lost = 1 \<and>
   dom (doctors demo_lost) = {7} \<and> sizeQ (the (doctors demo_lost 7)) = 1 \<and>
   filter taken (slotHead (the (doctors demo_lost 7))) = [] \<and> triageHeap demo_lost = [] \<and>
   results [AddDoctor 7 ''Dr_Rao'' ''ENT'' 1, AddSlot 7 701 ''11:00'' ''11:15'',
      AddSlot 7 702 ''11:15'' ''11:30'',
      Upsert \<lparr>p_id = 1, p_name = ''Ananya'', age = 22, history = ''No_history'', freq = 0\<rparr>,
      Book 1 7 701, Book 1 7 702, Serve 7, Serve 7, Undo, Undo] HospitalSystem_init =
   Some [RBool True, RBool True, RBool True, RVoid, RTokenId 1, RTokenId 2,
     RServed (Some \<lparr>tokenId = 1, patientId = - 1, doctorId = 7, slotId = 701, tktype = ROUTINE\<rparr>),
     RServed (Some \<lparr>tokenId = 2, patientId = - 1, doctorId = 7, slotId = 702, tktype = ROUTINE\<rparr>),
     RBool True, RBool True]"
proof -
  have p: "pendingCountTotal demo_lost = 2" unfolding demo_lost_def by code_simp
  have q: "sizeQ (the (doctors demo_lost 7)) = 1" unfolding demo_lost_def by code_simp
  have t: "filter taken (slotHead (the (doctors demo_lost 7))) = []" unfolding demo_lost_def by code_simp
  have h: "triageHeap demo_lost = []" unfolding demo_lost_def by code_simp
  have sp: "structPending demo_lost = 1"
    by (simp add: structPending_def doctorPending_def demo_lost_dom q t h)
  have res: "results [AddDoctor 7 ''Dr_Rao'' ''ENT'' 1, AddSlot 7 701 ''11:00'' ''11:15'',
      AddSlot 7 702 ''11:15'' ''11:30'',
      Upsert \<lparr>p_id = 1, p_name = ''Ananya'', age = 22, history = ''No_history'', freq = 0\<rparr>,
      Book 1 7 701, Book 1 7 702, Serve 7, Serve 7, Undo, Undo] HospitalSystem_init =
   Some [RBool True, RBool True, RBool True, RVoid, RTokenId 1, RTokenId 2,
     RServed (Some \<lparr>tokenId = 1, patientId = - 1, doctorId = 7, slotId = 701, tktype = ROUTINE\<rparr>),
     RServed (Some \<lparr>tokenId = 2, patientId = - 1, doctorId = 7, slotId = 702, tktype = ROUTINE\<rparr>),
     RBool True, RBool True]"
    by code_simp
  show ?thesis using p sp demo_lost_dom q t h res by simp
qed

subsection \<open>C8\<close>

text \<open>
  C8, as amended. After any run from the initial state (that is, in every reachable
  state) the ledger itself, read from the top, is the sequence of the records of the
  recorded operations in reverse order of time, each record holding the kind, the token,
  the slot, the provider and the patient of its operation: a patient upsert, a successful
  booking, triage insertion or serve, and the cancellation of an occupied slot put their
  record on top; every undo call takes the top record off, whether or not it reports the
  operation reversed; no other call changes the ledger. In particular the kinds of the
  records are the kinds of these operations.
\<close>

theorem C8_ledger_of_recorded_operations:
  assumes "run cmds HospitalSystem_init = Some s"
  shows "reachable s \<and>
         ledger_records cmds HospitalSystem_init [] = Some (undoStack s) \<and>
         ledger_amended cmds HospitalSystem_init [] = Some (map atype (undoStack s))"
proof -
  have "undoStack HospitalSystem_init = []" by (simp add: HospitalSystem_init_def)
  then show ?thesis
    using ledger_records_run[OF sys_inv_init assms] ledger_amended_run[OF sys_inv_init assms]
      run_reachable[OF reachable_init assms]
    by simp
qed

theorem C8_ledger_of_recorded_operations_witness:
  "run (seedSampleData @ [Book 1 1 101, CancelSlot 1 101, Undo]) HospitalSystem_init = Some demo_cancel \<and>
   reachable demo_cancel \<and>
   ledger_records (seedSampleData @ [Book 1 1 101, CancelSlot 1 101, Undo]) HospitalSystem_init []
     = Some (undoStack demo_cancel) \<and>
   ledger_amended (seedSampleData @ [Book 1 1 101, CancelSlot 1 101, Undo]) HospitalSystem_init []
     = Some (map atype (undoStack demo_cancel)) \<and>
   map atype (undoStack demo_cancel) = [BOOK, REGISTER_PATIENT, REGISTER_PATIENT, REGISTER_PATIENT] \<and>
   run (seedSampleData @ [Book 1 1 (- 1), Book 2 1 101, Triage 1 5, Triage 2 2, Triage 3 2])
     HospitalSystem_init = Some demo_triage \<and>
   reachable demo_triage \<and>
   ledger_records (seedSampleData @ [Book 1 1 (- 1), Book 2 1 101, Triage 1 5, Triage 2 2, Triage 3 2])
     HospitalSystem_init [] = Some (undoStack demo_triage) \<and>
   map (\<lambda>a. (atype a, tokenId (token a), patientId (token a), doctorId (token a), slotId (token a),
              patientIdForUpsert a)) (undoStack demo_triage) =
     [(TRIAGE_INSERT, 5, 3, - 1, - 1, - 1), (TRIAGE_INSERT, 4, 2, - 1, - 1, - 1),
      (TRIAGE_INSERT, 3, 1, - 1, - 1, - 1), (BOOK, 2, 2, 1, 101, - 1), (BOOK, 1, 1, 1, - 1, - 1),
      (REGISTER_PATIENT, - 1, - 1, - 1, - 1, 3), (REGISTER_PATIENT, - 1, - 1, - 1, - 1, 2),
      (REGISTER_PATIENT, - 1, - 1, - 1, - 1, 1)]"
proof -
  have "run (seedSampleData @ [Book 1 1 101, CancelSlot 1 101, Undo]) HospitalSystem_init \<noteq> None"
    by code_simp
  then have r: "run (seedSampleData @ [Book 1 1 101, CancelSlot 1 101, Undo]) HospitalSystem_init
      = Some demo_cancel"
    by (auto simp: demo_cancel_def)
  have v: "map atype (undoStack demo_cancel) = [BOOK, REGISTER_PATIENT, REGISTER_PATIENT, REGISTER_PATIENT]"
    unfolding demo_cancel_def by code_simp
  have w: "map (\<lambda>a. (atype a, tokenId (token a), patientId (token a), doctorId (token a), slotId (token a),
              patientIdForUpsert a)) (undoStack demo_triage) =
     [(TRIAGE_INSERT, 5, 3, - 1, - 1, - 1), (TRIAGE_INSERT, 4, 2, - 1, - 1, - 1),
      (TRIAGE_INSERT, 3, 1, - 1, - 1, - 1), (BOOK, 2, 2, 1, 101, - 1), (BOOK, 1, 1, 1, - 1, - 1),
      (REGISTER_PATIENT, - 1, - 1, - 1, - 1, 3), (REGISTER_PATIENT, - 1, - 1, - 1, - 1, 2),
      (REGISTER_PATIENT, - 1, - 1, - 1, - 1, 1)]"
    unfolding demo_triage_def by code_simp
  from C8_ledger_of_recorded_operations[OF r] C8_ledger_of_recorded_operations[OF demo_triage_run]
  show ?thesis using r v w demo_triage_run by simp
qed

text \<open>
  The claim as stated fails in two ways. An undo that reports failure has still removed
  the record of the operation it did not reverse (the cancellation of slot 101, with
  result \<open>RBool False\<close> for the undo); and the successful cancellation of the free slot
  102 changes the slot list and leaves no record.
\<close>

theorem C8_ledger_counterexample:
  "ledger_claimed (seedSampleData @ [Book 1 1 101, CancelSlot 1 101, Undo]) HospitalSystem_init []
     = Some [CANCEL, BOOK, REGISTER_PATIENT, REGISTER_PATIENT, REGISTER_PATIENT] \<and>
   map_option (\<lambda>s. map atype (undoStack s))
     (run (seedSampleData @ [Book 1 1 101, CancelSlot 1 101, Undo]) HospitalSystem_init)
     = Some [BOOK, REGISTER_PATIENT, REGISTER_PATIENT, REGISTER_PATIENT] \<and>
   map_option (drop 8)
     (results (seedSampleData @ [Book 1 1 101, CancelSlot 1 101, Undo]) HospitalSystem_init)
     = Some [RTokenId 1, RBool True, RBool False] \<and>
   ledger_claimed (seedSampleData @ [CancelSlot 1 102]) HospitalSystem_init []
     = Some [CANCEL, REGISTER_PATIENT, REGISTER_PATIENT, REGISTER_PATIENT] \<and>
   map_option (\<lambda>s. map atype (undoStack s))
     (run (seedSampleData @ [CancelSlot 1 102]) HospitalSystem_init)
     = Some [REGISTER_PATIENT, REGISTER_PATIENT, REGISTER_PATIENT] \<and>
   map_option (drop 8) (results (seedSampleData @ [CancelSlot 1 102]) HospitalSystem_init)
     = Some [RBool True] \<and>
   map_option (\<lambda>s. map_option (map sl_slotId \<circ> slotHead) (doctors s 1))
     (run (seedSampleData @ [CancelSlot 1 102]) HospitalSystem_init) = Some (Some [101])"
  by code_simp

subsection \<open>C9\<close>

text \<open>
  C9, as amended. When \<open>serveNext\<close> serves through the slot scan (no emergency pending,
  the provider's queue empty, some slot occupied), the served token has the patient id
  \<open>- 1\<close> whoever booked the slot, the registry is unchanged (no frequency counter moves),
  and the undo that follows succeeds; provided the capacity of the provider's queue is
  not 0, it puts that token, with patient id \<open>- 1\<close>, into the provider's queue.
\<close>

theorem C9_slot_fallback_serve:
  assumes "reachable s" "triageHeap s = []" "doctors s d = Some D" "sizeQ D = 0"
    "firstTaken (slotHead D) = Some i"
  shows "\<exists>served s1 s2.
           serveNext d s = (Some served, s1) \<and>
           served = \<lparr>tokenId = sl_tokenId (slotHead D ! i), patientId = - 1, doctorId = d,
                      slotId = sl_slotId (slotHead D ! i), tktype = ROUTINE\<rparr> \<and>
           patients s1 = patients s \<and>
           undoPop s1 = Some (True, s2) \<and> patients s2 = patients s \<and>
           (capacity D \<noteq> 0 \<longrightarrow> map_option queueContents (doctors s2 d) = Some [served])"
proof -
  let ?served = "\<lparr>tokenId = sl_tokenId (slotHead D ! i), patientId = - 1, doctorId = d,
                      slotId = sl_slotId (slotHead D ! i), tktype = ROUTINE\<rparr>"
  let ?D1 = "setSlot i False (- 1) D"
  let ?s1 = "snd (serveNext d s)"
  note sv = serveNext_slot[OF assms(2-5)]
  have qi: "queue_inv D" by (rule reachable_doctor(2)[OF assms(1,3)])
  have top: "undoStack ?s1 = (Action_new SERVE)\<lparr>token := ?served\<rparr> # undoStack s"
    and doc: "doctors ?s1 (doctorId (token ((Action_new SERVE)\<lparr>token := ?served\<rparr>))) = Some ?D1"
    using sv by simp_all
  from undo_serve_routine[OF top _ _ doc]
  have u: "undoPop ?s1 = Some (True,
           ?s1\<lparr>undoStack := undoStack s,
             doctors := (doctors ?s1)(d \<mapsto> snd (Doctor_enqueueRoutine ?served ?D1)),
             pendingCountTotal := pendingCountTotal ?s1 + 1, servedCount := servedCount ?s1 - 1\<rparr>)"
    by simp
  have c: "queueContents (snd (Doctor_enqueueRoutine ?served ?D1)) = [?served]" if "capacity D \<noteq> 0"
  proof -
    have "0 \<le> capacity D" using qi by (simp add: queue_inv_def)
    then have "sizeQ ?D1 < capacity ?D1" using that assms(4) by simp
    from enqueue_contents[OF _ this, of ?served] qi assms(4) show ?thesis
      by (simp add: queueContents_Nil)
  qed
  show ?thesis using sv u c by auto
qed

theorem C9_slot_fallback_serve_witness:
  "reachable demo_slot \<and> triageHeap demo_slot = [] \<and>
   doctors demo_slot 1 = Some (the (doctors demo_slot 1)) \<and>
   sizeQ (the (doctors demo_slot 1)) = 0 \<and> capacity (the (doctors demo_slot 1)) = 5 \<and>
   firstTaken (slotHead (the (doctors demo_slot 1))) = Some 0 \<and>
   map_option freq (patients demo_slot 2) = Some 1 \<and>
   (\<exists>served s1 s2.
       serveNext 1 demo_slot = (Some served, s1) \<and>
       served = \<lparr>tokenId = 1, patientId = - 1, doctorId = 1, slotId = 101, tktype = ROUTINE\<rparr> \<and>
       patients s1 = patients demo_slot \<and>
       undoPop s1 = Some (True, s2) \<and> patients s2 = patients demo_slot \<and>
       map_option queueContents (doctors s2 1) = Some [served])"
proof -
  have a: "triageHeap demo_slot = []" "doctors demo_slot 1 = Some (the (doctors demo_slot 1))"
    "sizeQ (the (doctors demo_slot 1)) = 0" "firstTaken (slotHead (the (doctors demo_slot 1))) = Some 0"
    "capacity (the (doctors demo_slot 1)) = 5" "map_option freq (patients demo_slot 2) = Some 1"
    "sl_tokenId (slotHead (the (doctors demo_slot 1)) ! 0) = 1"
    "sl_slotId (slotHead (the (doctors demo_slot 1)) ! 0) = 101"
    unfolding demo_slot_def by code_simp+
  from C9_slot_fallback_serve[OF demo_slot_reachable a(1,2,3,4)]
  show ?thesis using demo_slot_reachable a by simp
qed

text \<open>
  The claim as stated fails for a provider of queue capacity 0: the slot is booked and
  served through the slot scan, the undo reports success, and the queue is still empty.
\<close>

theorem C9_capacity_zero_counterexample:
  "map_option (drop 3) (results [AddDoctor 9 ''Dr_Nil'' ''Walk_in'' 0, AddSlot 9 901 ''12:00'' ''12:15'',
      Upsert \<lparr>p_id = 1, p_name = ''Ananya'', age = 22, history = ''No_history'', freq = 0\<rparr>,
      Book 1 9 901, Serve 9, Undo] HospitalSystem_init) =
     Some [RTokenId 1,
       RServed (Some \<lparr>tokenId = 1, patientId = - 1, doctorId = 9, slotId = 901, tktype = ROUTINE\<rparr>),
       RBool True] \<and>
   map_option (\<lambda>s. map_option queueContents (doctors s 9))
     (run [AddDoctor 9 ''Dr_Nil'' ''Walk_in'' 0, AddSlot 9 901 ''12:00'' ''12:15'',
      Upsert \<lparr>p_id = 1, p_name = ''Ananya'', age = 22, history = ''No_history'', freq = 0\<rparr>,
      Book 1 9 901, Serve 9, Undo] HospitalSystem_init) = Some (Some []) \<and>
   map_option (\<lambda>s. map_option sizeQ (doctors s 9))
     (run [AddDoctor 9 ''Dr_Nil'' ''Walk_in'' 0, AddSlot 9 901 ''12:00'' ''12:15'',
      Upsert \<lparr>p_id = 1, p_name = ''Ananya'', age = 22, history = ''No_history'', freq = 0\<rparr>,
      Book 1 9 901, Serve 9, Undo] HospitalSystem_init) = Some (Some 0)"
  by code_simp

subsection \<open>C10\<close>

text \<open>
  C10. When the undo reaches the Serve record of a routine token whose provider's queue is
  full, it reports success, adds one to the pending total and takes one from the served
  total, and the result of the failed enqueue is ignored: the schedules and the triage
  collection are as before, so the token is in none of them.
\<close>

theorem C10_undo_serve_full_fifo:
  assumes "undoStack s = act # rest" "atype act = SERVE" "tktype (token act) = ROUTINE"
    "doctors s (doctorId (token act)) = Some D" "isFull D"
  shows "undoPop s = Some (True, s\<lparr>undoStack := rest,
           pendingCountTotal := pendingCountTotal s + 1, servedCount := servedCount s - 1\<rparr>)
         \<and> doctors (snd (the (undoPop s))) = doctors s
         \<and> triageHeap (snd (the (undoPop s))) = triageHeap s"
  using assms by (simp add: undoPop_def Let_def enqueue_full map_upd_triv)

theorem C10_undo_serve_full_fifo_witness:
  "undoStack demo_full = hd (undoStack demo_full) # tl (undoStack demo_full) \<and>
   atype (hd (undoStack demo_full)) = SERVE \<and>
   tktype (token (hd (undoStack demo_full))) = ROUTINE \<and>
   doctorId (token (hd (undoStack demo_full))) = 7 \<and>
   doctors demo_full 7 = Some (the (doctors demo_full 7)) \<and>
   isFull (the (doctors demo_full 7)) \<and>
   undoPop demo_full = Some (True, demo_full\<lparr>undoStack := tl (undoStack demo_full),
           pendingCountTotal := pendingCountTotal demo_full + 1,
           servedCount := servedCount demo_full - 1\<rparr>) \<and>
   queueContents (the (doctors demo_full 7)) =
     [\<lparr>tokenId = 2, patientId = - 1, doctorId = 7, slotId = 702, tktype = ROUTINE\<rparr>] \<and>
   token (hd (undoStack demo_full)) =
     \<lparr>tokenId = 1, patientId = - 1, doctorId = 7, slotId = 701, tktype = ROUTINE\<rparr> \<and>
   pendingCountTotal demo_full = 1"
proof -
  have h1: "undoStack demo_full = hd (undoStack demo_full) # tl (undoStack demo_full)"
    unfolding demo_full_def by code_simp
  have h2: "atype (hd (undoStack demo_full)) = SERVE"
    unfolding demo_full_def by code_simp
  have h3: "tktype (token (hd (undoStack demo_full))) = ROUTINE"
    unfolding demo_full_def by code_simp
  have h4: "doctorId (token (hd (undoStack demo_full))) = 7"
    unfolding demo_full_def by code_simp
  have h5: "doctors demo_full 7 = Some (the (doctors demo_full 7))"
    unfolding demo_full_def by code_simp
  have h6: "isFull (the (doctors demo_full 7))"
    unfolding demo_full_def by code_simp
  have h7: "queueContents (the (doctors demo_full 7)) =
     [\<lparr>tokenId = 2, patientId = - 1, doctorId = 7, slotId = 702, tktype = ROUTINE\<rparr>]"
    unfolding demo_full_def by code_simp
  have h8: "token (hd (undoStack demo_full)) =
     \<lparr>tokenId = 1, patientId = - 1, doctorId = 7, slotId = 701, tktype = ROUTINE\<rparr>"
    unfolding demo_full_def by code_simp
  have h9: "pendingCountTotal demo_full = 1"
    unfolding demo_full_def by code_simp
  have h5': "doctors demo_full (doctorId (token (hd (undoStack demo_full)))) =
             Some (the (doctors demo_full 7))"
    using h4 h5 by simp
  from C10_undo_serve_full_fifo[OF h1 h2 h3 h5' h6]
  show ?thesis using h1 h2 h3 h4 h5 h6 h7 h8 h9 by simp
qed

end
